theory Spec2Isabelle
  imports Main
begin

section \<open>Seat booking server (server.js): data model\<close>

text \<open>
  The server keeps one JavaScript object \<open>seats\<close>, keyed by seat id, whose values are
  small records \<open>{ status, lockedBy?, lockExpiresAt?, timeoutId? }\<close>. Optional fields
  are \<open>option\<close>s here: \<open>None\<close> is JavaScript's \<open>undefined\<close>. Instants are the
  values of \<open>Date.now()\<close>, milliseconds since the Unix epoch, modelled as \<open>nat\<close>.
  Node runs every request handler and every timer callback to completion on one thread,
  so each of them is one atomic function from the server state to the server state.
\<close>

datatype status = Available | Locked | Booked

record seat =
  status :: status
  lockedBy :: "string option"
  lockExpiresAt :: "nat option"
  timeoutId :: "nat option"

text \<open>
  A pending \<open>setTimeout\<close>: the callback closes over \<open>seatId\<close> only; \<open>timerDue\<close> is
  the instant before which the runtime does not run it.
\<close>

record timer =
  timerSeat :: int
  timerDue :: nat

text \<open>
  The state: the \<open>seats\<close> object, the runtime's table of pending timeouts (keyed by
  the handle \<open>setTimeout\<close> returned) and the next handle the runtime hands out.
\<close>

record server =
  seats :: "int \<rightharpoonup> seat"
  timers :: "nat \<rightharpoonup> timer"
  nextTimer :: nat

record response =
  code :: nat
  message :: string

definition LOCK_TTL :: nat where
  "LOCK_TTL = 60000"

definition TOTAL_SEATS :: int where
  "TOTAL_SEATS = 10"

text \<open>The three object literals the code ever stores in \<open>seats\<close>.\<close>

definition availableSeat :: seat where
  "availableSeat = \<lparr>status = Available, lockedBy = None, lockExpiresAt = None, timeoutId = None\<rparr>"

definition bookedSeat :: seat where
  "bookedSeat = \<lparr>status = Booked, lockedBy = None, lockExpiresAt = None, timeoutId = None\<rparr>"

definition lockedSeat :: "string \<Rightarrow> nat \<Rightarrow> seat" where
  "lockedSeat user expires =
     \<lparr>status = Locked, lockedBy = Some user, lockExpiresAt = Some expires, timeoutId = None\<rparr>"

text \<open>Lines 20-22: seats \<open>1..TOTAL_SEATS\<close> start available; no timer is pending.\<close>

definition initialSeats :: "int \<rightharpoonup> seat" where
  "initialSeats = fold (\<lambda>i m. m(i \<mapsto> availableSeat)) [1..TOTAL_SEATS] Map.empty"

definition initial :: server where
  "initial = \<lparr>seats = initialSeats, timers = Map.empty, nextTimer = 0\<rparr>"

subsection \<open>Response bodies\<close>

text \<open>The template literals print the seat id in decimal.\<close>

fun showNat :: "nat \<Rightarrow> string" where
  "showNat n =
     (if n < 10 then [''0123456789'' ! n]
      else showNat (n div 10) @ [''0123456789'' ! (n mod 10)])"

declare showNat.simps [simp del]

definition showInt :: "int \<Rightarrow> string" where
  "showInt i = (if i < 0 then ''-'' @ showNat (nat (- i)) else showNat (nat i))"

definition reply :: "nat \<Rightarrow> string \<Rightarrow> response" where
  "reply c m = \<lparr>code = c, message = m\<rparr>"

definition notFound :: "int \<Rightarrow> response" where
  "notFound i = reply 404 (''Seat '' @ showInt i @ '' does not exist.'')"

definition alreadyBooked :: "int \<Rightarrow> response" where
  "alreadyBooked i = reply 409 (''Seat '' @ showInt i @ '' is already booked.'')"

definition alreadyLocked :: "int \<Rightarrow> response" where
  "alreadyLocked i =
     reply 423 (''Seat '' @ showInt i @ '' is already locked. Try another seat.'')"

definition lockedOk :: "int \<Rightarrow> response" where
  "lockedOk i =
     reply 200 (''Seat '' @ showInt i @ '' locked successfully. Confirm within 1 minute.'')"

definition notLocked :: response where
  "notLocked = reply 400 ''Seat is not locked and cannot be booked''"

definition lockExpired :: response where
  "lockExpired = reply 408 ''Lock expired. Please lock the seat again.''"

definition forbiddenOwner :: response where
  "forbiddenOwner = reply 403 ''Seat locked by another user.''"

definition bookedOk :: "int \<Rightarrow> response" where
  "bookedOk i = reply 200 (''Seat '' @ showInt i @ '' booked successfully!'')"

definition alreadyAvailable :: "int \<Rightarrow> response" where
  "alreadyAvailable i = reply 200 (''Seat '' @ showInt i @ '' already available.'')"

definition cannotUnlockBooked :: "int \<Rightarrow> response" where
  "cannotUnlockBooked i = reply 409 (''Seat '' @ showInt i @ '' is booked; cannot unlock.'')"

definition lockCleared :: "int \<Rightarrow> response" where
  "lockCleared i = reply 200 (''Seat '' @ showInt i @ '' lock cleared.'')"

text \<open>
  What Express answers when a handler throws.
\<close>

definition internalError :: response where
  "internalError = reply 500 ''Internal Server Error''"

section \<open>Timers\<close>

text \<open>
  \<open>clearSeatTimer(seat)\<close>. Every caller passes the object that is \<open>seats[id]\<close> at
  that moment, so the mutation \<open>seat.timeoutId = undefined\<close> is an update of the
  record stored under \<open>id\<close>. A timeout handle is an object, hence always truthy;
  \<open>clearTimeout\<close> of a handle that is no longer pending changes nothing.
\<close>

definition clearSeatTimer :: "server \<Rightarrow> int \<Rightarrow> server" where
  "clearSeatTimer sv i =
     (case seats sv i of
        None \<Rightarrow> sv
      | Some s \<Rightarrow>
          (case timeoutId s of
             None \<Rightarrow> sv
           | Some h \<Rightarrow>
               sv\<lparr>timers := (timers sv)(h := None),
                  seats := (seats sv)(i \<mapsto> s\<lparr>timeoutId := None\<rparr>)\<rparr>))"

text \<open>
  \<open>armSeatExpiry(seatId)\<close>, called at instant \<open>now\<close>: a fresh timeout, due
  \<open>LOCK_TTL + 50\<close> ms later, is stored in the seat. Writing \<open>timeoutId\<close> on a missing
  seat is a TypeError: \<open>None\<close>.
\<close>

definition armSeatExpiry :: "server \<Rightarrow> int \<Rightarrow> nat \<Rightarrow> server option" where
  "armSeatExpiry sv seatId now =
     (let sv1 = clearSeatTimer sv seatId; h = nextTimer sv1 in
      (case seats sv1 seatId of
         None \<Rightarrow> None
       | Some s \<Rightarrow>
           Some (sv1\<lparr>timers := (timers sv1)(h \<mapsto> \<lparr>timerSeat = seatId, timerDue = now + LOCK_TTL + 50\<rparr>),
                    nextTimer := Suc h,
                    seats := (seats sv1)(seatId \<mapsto> s\<lparr>timeoutId := Some h\<rparr>)\<rparr>)))"

text \<open>
  The test \<open>seat.lockExpiresAt && seat.lockExpiresAt <= now\<close>: an absent expiry and
  the number \<open>0\<close> are falsy.
\<close>

definition expiredAt :: "seat \<Rightarrow> nat \<Rightarrow> bool" where
  "expiredAt s now = (case lockExpiresAt s of None \<Rightarrow> False | Some e \<Rightarrow> e \<noteq> 0 \<and> e \<le> now)"

text \<open>
  The body of the timeout callback (lines 37-41), run at instant \<open>now\<close>. Reading
  \<open>status\<close> of a missing seat is a TypeError: \<open>None\<close>.
\<close>

definition expiryCallback :: "server \<Rightarrow> int \<Rightarrow> nat \<Rightarrow> server option" where
  "expiryCallback sv seatId now =
     (case seats sv seatId of
        None \<Rightarrow> None
      | Some s \<Rightarrow>
          if status s = Locked \<and> expiredAt s now
          then Some (sv\<lparr>seats := (seats sv)(seatId \<mapsto> availableSeat)\<rparr>)
          else Some sv)"

text \<open>
  The runtime fires the pending timeout \<open>h\<close> at instant \<open>now\<close>: the timeout leaves the
  table and its callback runs. A handle that is not pending, or not yet due, does not
  fire: the state stays as it is.
\<close>

definition fireTimer :: "server \<Rightarrow> nat \<Rightarrow> nat \<Rightarrow> server option" where
  "fireTimer sv h now =
     (case timers sv h of
        None \<Rightarrow> Some sv
      | Some tm \<Rightarrow>
          if now < timerDue tm then Some sv
          else expiryCallback (sv\<lparr>timers := (timers sv)(h := None)\<rparr>) (timerSeat tm) now)"

section \<open>Request handlers\<close>

text \<open>
  Each handler takes the seat id (\<open>Number(req.params.id)\<close>), the caller
  (\<open>String(req.query.user || 'anonymous')\<close>) and the instant \<open>Date.now()\<close> it reads,
  and returns the response with the new state.
\<close>

text \<open>GET /seats: the status of every seat, nothing else; the clock is not read.\<close>

definition listSeats :: "server \<Rightarrow> (int \<rightharpoonup> status)" where
  "listSeats sv = (\<lambda>i. map_option status (seats sv i))"

definition statusOf :: "server \<Rightarrow> int \<Rightarrow> status option" where
  "statusOf sv i = map_option status (seats sv i)"

text \<open>POST /lock/:id\<close>

definition lock :: "server \<Rightarrow> int \<Rightarrow> string \<Rightarrow> nat \<Rightarrow> response \<times> server" where
  "lock sv i user now =
     (case seats sv i of
        None \<Rightarrow> (notFound i, sv)
      | Some s \<Rightarrow>
          let sv1 = (if status s = Locked \<and> expiredAt s now
                     then (clearSeatTimer sv i)
                            \<lparr>seats := (seats (clearSeatTimer sv i))(i \<mapsto> availableSeat)\<rparr>
                     else sv)
          in if statusOf sv1 i = Some Booked then (alreadyBooked i, sv1)
             else if statusOf sv1 i = Some Locked then (alreadyLocked i, sv1)
             else
               let sv2 = sv1\<lparr>seats := (seats sv1)(i \<mapsto> lockedSeat user (now + LOCK_TTL))\<rparr>
               in (case armSeatExpiry sv2 i now of
                     None \<Rightarrow> (internalError, sv2)
                   | Some sv3 \<Rightarrow> (lockedOk i, sv3)))"

text \<open>POST /confirm/:id\<close>

definition confirm :: "server \<Rightarrow> int \<Rightarrow> string \<Rightarrow> nat \<Rightarrow> response \<times> server" where
  "confirm sv i user now =
     (case seats sv i of
        None \<Rightarrow> (notFound i, sv)
      | Some s \<Rightarrow>
          if status s \<noteq> Locked then (notLocked, sv)
          else if expiredAt s now
          then (lockExpired,
                (clearSeatTimer sv i)\<lparr>seats := (seats (clearSeatTimer sv i))(i \<mapsto> availableSeat)\<rparr>)
          else if lockedBy s \<noteq> Some user then (forbiddenOwner, sv)
          else (bookedOk i,
                (clearSeatTimer sv i)\<lparr>seats := (seats (clearSeatTimer sv i))(i \<mapsto> bookedSeat)\<rparr>))"

text \<open>POST /unlock/:id (the administrative release)\<close>

definition unlock :: "server \<Rightarrow> int \<Rightarrow> response \<times> server" where
  "unlock sv i =
     (case seats sv i of
        None \<Rightarrow> (notFound i, sv)
      | Some s \<Rightarrow>
          if status s = Available then (alreadyAvailable i, sv)
          else if status s = Booked then (cannotUnlockBooked i, sv)
          else (lockCleared i,
                (clearSeatTimer sv i)\<lparr>seats := (seats (clearSeatTimer sv i))(i \<mapsto> availableSeat)\<rparr>))"

section \<open>Runs of the server\<close>

text \<open>
  What can happen to the server: a request arrives, or the runtime fires a timeout.
  \<open>None\<close> is a crash (an exception thrown inside a timer callback).
\<close>

datatype event =
  Lock int string nat
| Confirm int string nat
| Unlock int
| ListSeats
| Fire nat nat

fun step :: "server \<Rightarrow> event \<Rightarrow> server option" where
  "step sv (Lock i user now) = Some (snd (lock sv i user now))"
| "step sv (Confirm i user now) = Some (snd (confirm sv i user now))"
| "step sv (Unlock i) = Some (snd (unlock sv i))"
| "step sv ListSeats = Some sv"
| "step sv (Fire h now) = fireTimer sv h now"

fun run :: "server \<Rightarrow> event list \<Rightarrow> server option" where
  "run sv [] = Some sv"
| "run sv (e # es) = (case step sv e of None \<Rightarrow> None | Some sv' \<Rightarrow> run sv' es)"

section \<open>Derived notions\<close>

text \<open>
  What lines 69-70, 106-107 and 135-136 do to seat \<open>i\<close>: cancel the pending timeout its
  record holds and store a fresh available record.
\<close>

definition reclaimed :: "server \<Rightarrow> int \<Rightarrow> server" where
  "reclaimed sv i =
     (clearSeatTimer sv i)\<lparr>seats := (seats (clearSeatTimer sv i))(i \<mapsto> availableSeat)\<rparr>"

text \<open>Seat \<open>i\<close> is locked by \<open>user\<close> until \<open>e\<close>.\<close>

definition holdsLock :: "server \<Rightarrow> int \<Rightarrow> string \<Rightarrow> nat \<Rightarrow> bool" where
  "holdsLock sv i user e =
     (case seats sv i of
        None \<Rightarrow> False
      | Some s \<Rightarrow> status s = Locked \<and> lockedBy s = Some user \<and> lockExpiresAt s = Some e)"

text \<open>
  Every pending timeout is the one its seat's record holds, and that seat is locked:
  no timeout of an earlier lock is ever left pending.
\<close>

definition timersOK :: "server \<Rightarrow> bool" where
  "timersOK sv =
     (\<forall>h tm. timers sv h = Some tm \<longrightarrow>
        h < nextTimer sv \<and>
        (case seats sv (timerSeat tm) of
           None \<Rightarrow> False
         | Some s \<Rightarrow> status s = Locked \<and> timeoutId s = Some h))"

text \<open>\<open>lockedBy\<close> and \<open>lockExpiresAt\<close> are present exactly in locked records.\<close>

definition shapeOK :: "server \<Rightarrow> bool" where
  "shapeOK sv =
     (\<forall>i s. seats sv i = Some s \<longrightarrow>
        ((lockedBy s \<noteq> None) = (status s = Locked)) \<and>
        ((lockExpiresAt s \<noteq> None) = (status s = Locked)))"

text \<open>No record holds the expiry instant 0, which the expiry test would take for unset.\<close>

definition expiryOK :: "server \<Rightarrow> bool" where
  "expiryOK sv = (\<forall>i s. seats sv i = Some s \<longrightarrow> lockExpiresAt s \<noteq> Some 0)"

section \<open>The handlers, case by case\<close>

lemma LOCK_TTL_pos: "0 < LOCK_TTL"
  by (simp add: LOCK_TTL_def)

lemma fold_upd_lookup:
  "fold (\<lambda>i m. m(i \<mapsto> v)) xs m0 j = (if j \<in> set xs then Some v else m0 j)"
  by (induction xs arbitrary: m0) auto

lemma initialSeats_lookup:
  "initialSeats i = (if 1 \<le> i \<and> i \<le> TOTAL_SEATS then Some availableSeat else None)"
  by (simp add: initialSeats_def fold_upd_lookup)

lemma seats_clearSeatTimer:
  "seats (clearSeatTimer sv i) =
     (case seats sv i of None \<Rightarrow> seats sv | Some s \<Rightarrow> (seats sv)(i \<mapsto> s\<lparr>timeoutId := None\<rparr>))"
  by (auto simp add: clearSeatTimer_def split: option.splits)

lemma timers_clearSeatTimer:
  "timers (clearSeatTimer sv i) =
     (case seats sv i of
        None \<Rightarrow> timers sv
      | Some s \<Rightarrow> (case timeoutId s of None \<Rightarrow> timers sv | Some h \<Rightarrow> (timers sv)(h := None)))"
  by (simp add: clearSeatTimer_def split: option.splits)

lemma nextTimer_clearSeatTimer: "nextTimer (clearSeatTimer sv i) = nextTimer sv"
  by (simp add: clearSeatTimer_def split: option.splits)

lemma seats_reclaimed:
  "seats sv i = Some s \<Longrightarrow> seats (reclaimed sv i) = (seats sv)(i \<mapsto> availableSeat)"
  by (simp add: reclaimed_def seats_clearSeatTimer)

lemma seats_replace:
  "seats sv i = Some s \<Longrightarrow>
   (seats (clearSeatTimer sv i))(i \<mapsto> x) = (seats sv)(i \<mapsto> x)"
  by (simp add: seats_clearSeatTimer)

lemma timers_reclaimed: "timers (reclaimed sv i) = timers (clearSeatTimer sv i)"
  by (simp add: reclaimed_def)

lemma nextTimer_reclaimed: "nextTimer (reclaimed sv i) = nextTimer sv"
  by (simp add: reclaimed_def nextTimer_clearSeatTimer)

text \<open>lock, case by case\<close>

lemma lock_missing: "seats sv i = None \<Longrightarrow> lock sv i user now = (notFound i, sv)"
  by (simp add: lock_def)

lemma lock_booked:
  "seats sv i = Some s \<Longrightarrow> status s = Booked \<Longrightarrow> lock sv i user now = (alreadyBooked i, sv)"
  by (simp add: lock_def statusOf_def)

lemma lock_unexpired:
  "seats sv i = Some s \<Longrightarrow> status s = Locked \<Longrightarrow> \<not> expiredAt s now \<Longrightarrow>
   lock sv i user now = (alreadyLocked i, sv)"
  by (simp add: lock_def statusOf_def)

lemma lock_available:
  "seats sv i = Some s \<Longrightarrow> status s = Available \<Longrightarrow>
   lock sv i user now =
     (lockedOk i,
      sv\<lparr>timers := (timers sv)(nextTimer sv \<mapsto> \<lparr>timerSeat = i, timerDue = now + LOCK_TTL + 50\<rparr>),
         nextTimer := Suc (nextTimer sv),
         seats := (seats sv)(i \<mapsto> (lockedSeat user (now + LOCK_TTL))\<lparr>timeoutId := Some (nextTimer sv)\<rparr>)\<rparr>)"
  by (simp add: lock_def statusOf_def armSeatExpiry_def clearSeatTimer_def lockedSeat_def Let_def)

lemma lock_expired:
  "seats sv i = Some s \<Longrightarrow> status s = Locked \<Longrightarrow> expiredAt s now \<Longrightarrow>
   lock sv i user now = lock (reclaimed sv i) i user now"
  by (simp add: lock_def statusOf_def reclaimed_def availableSeat_def expiredAt_def Let_def)

lemma reclaimed_available:
  "seats (reclaimed sv i) i = Some availableSeat"
  by (simp add: reclaimed_def)

lemma status_availableSeat: "status availableSeat = Available"
  by (simp add: availableSeat_def)

lemma lock_expired_result:
  assumes "seats sv i = Some s" "status s = Locked" "expiredAt s now"
  shows "lock sv i user now =
     (lockedOk i,
      (reclaimed sv i)\<lparr>timers := (timers (reclaimed sv i))(nextTimer sv \<mapsto> \<lparr>timerSeat = i, timerDue = now + LOCK_TTL + 50\<rparr>),
         nextTimer := Suc (nextTimer sv),
         seats := (seats sv)(i \<mapsto> (lockedSeat user (now + LOCK_TTL))\<lparr>timeoutId := Some (nextTimer sv)\<rparr>)\<rparr>)"
proof -
  have "lock sv i user now = lock (reclaimed sv i) i user now"
    using assms by (rule lock_expired)
  also have "\<dots> = (lockedOk i,
      (reclaimed sv i)\<lparr>timers := (timers (reclaimed sv i))(nextTimer (reclaimed sv i) \<mapsto> \<lparr>timerSeat = i, timerDue = now + LOCK_TTL + 50\<rparr>),
         nextTimer := Suc (nextTimer (reclaimed sv i)),
         seats := (seats (reclaimed sv i))(i \<mapsto> (lockedSeat user (now + LOCK_TTL))\<lparr>timeoutId := Some (nextTimer (reclaimed sv i))\<rparr>)\<rparr>)"
    by (rule lock_available [OF reclaimed_available status_availableSeat])
  finally show ?thesis
    using assms(1) by (simp add: nextTimer_reclaimed seats_reclaimed)
qed

text \<open>confirm, case by case\<close>

lemma confirm_missing: "seats sv i = None \<Longrightarrow> confirm sv i user now = (notFound i, sv)"
  by (simp add: confirm_def)

lemma confirm_not_locked:
  "seats sv i = Some s \<Longrightarrow> status s \<noteq> Locked \<Longrightarrow> confirm sv i user now = (notLocked, sv)"
  by (simp add: confirm_def)

lemma confirm_expired:
  "seats sv i = Some s \<Longrightarrow> status s = Locked \<Longrightarrow> expiredAt s now \<Longrightarrow>
   confirm sv i user now = (lockExpired, reclaimed sv i)"
  by (simp add: confirm_def reclaimed_def)


lemma confirm_owner:
  "seats sv i = Some s \<Longrightarrow> status s = Locked \<Longrightarrow> \<not> expiredAt s now \<Longrightarrow>
   lockedBy s = Some user \<Longrightarrow>
   confirm sv i user now =
     (bookedOk i, (clearSeatTimer sv i)\<lparr>seats := (seats sv)(i \<mapsto> bookedSeat)\<rparr>)"
  by (simp add: confirm_def seats_replace)

text \<open>unlock, case by case\<close>

lemma unlock_missing: "seats sv i = None \<Longrightarrow> unlock sv i = (notFound i, sv)"
  by (simp add: unlock_def)

lemma unlock_available:
  "seats sv i = Some s \<Longrightarrow> status s = Available \<Longrightarrow> unlock sv i = (alreadyAvailable i, sv)"
  by (simp add: unlock_def)

lemma unlock_booked:
  "seats sv i = Some s \<Longrightarrow> status s = Booked \<Longrightarrow> unlock sv i = (cannotUnlockBooked i, sv)"
  by (simp add: unlock_def)

lemma unlock_locked:
  "seats sv i = Some s \<Longrightarrow> status s = Locked \<Longrightarrow> unlock sv i = (lockCleared i, reclaimed sv i)"
  by (simp add: unlock_def reclaimed_def)

lemma expiredAt_iff:
  "lockExpiresAt s = Some (t0 + LOCK_TTL) \<Longrightarrow> expiredAt s now = (t0 + LOCK_TTL \<le> now)"
  using LOCK_TTL_pos by (simp add: expiredAt_def)

section \<open>Invariants\<close>

lemma timersOK_initial: "timersOK initial"
  by (simp add: timersOK_def initial_def)

lemma timersOK_replace:
  assumes ok: "timersOK sv" and si: "seats sv i = Some s"
  shows "timersOK ((clearSeatTimer sv i)\<lparr>seats := (seats sv)(i \<mapsto> x)\<rparr>)"
  unfolding timersOK_def
proof (intro allI impI)
  fix h tm
  let ?sv' = "(clearSeatTimer sv i)\<lparr>seats := (seats sv)(i \<mapsto> x)\<rparr>"
  assume pend': "timers ?sv' h = Some tm"
  have pend: "timers sv h = Some tm" and ne: "timeoutId s \<noteq> Some h"
    using pend' si by (auto simp add: timers_clearSeatTimer split: option.splits if_splits)
  from ok pend have lt: "h < nextTimer sv"
    and st: "(case seats sv (timerSeat tm) of None \<Rightarrow> False
             | Some s \<Rightarrow> status s = Locked \<and> timeoutId s = Some h)"
    by (simp_all add: timersOK_def)
  from st si ne have "timerSeat tm \<noteq> i" by auto
  with lt st show "h < nextTimer ?sv' \<and>
        (case seats ?sv' (timerSeat tm) of None \<Rightarrow> False
         | Some s \<Rightarrow> status s = Locked \<and> timeoutId s = Some h)"
    by (simp add: nextTimer_clearSeatTimer)
qed

lemma timersOK_reclaimed:
  "timersOK sv \<Longrightarrow> seats sv i = Some s \<Longrightarrow> timersOK (reclaimed sv i)"
  using timersOK_replace [of sv i s availableSeat] by (simp add: reclaimed_def seats_replace)

lemma timersOK_arm:
  assumes ok: "timersOK sv" and si: "seats sv i = Some s" and av: "status s \<noteq> Locked"
  shows "timersOK (sv\<lparr>timers := (timers sv)(nextTimer sv \<mapsto> \<lparr>timerSeat = i, timerDue = d\<rparr>),
         nextTimer := Suc (nextTimer sv),
         seats := (seats sv)(i \<mapsto> (lockedSeat user e)\<lparr>timeoutId := Some (nextTimer sv)\<rparr>)\<rparr>)"
  unfolding timersOK_def
proof (intro allI impI)
  fix h tm
  assume pend': "timers (sv\<lparr>timers := (timers sv)(nextTimer sv \<mapsto> \<lparr>timerSeat = i, timerDue = d\<rparr>),
         nextTimer := Suc (nextTimer sv),
         seats := (seats sv)(i \<mapsto> (lockedSeat user e)\<lparr>timeoutId := Some (nextTimer sv)\<rparr>)\<rparr>) h = Some tm"
  show "h < nextTimer (sv\<lparr>timers := (timers sv)(nextTimer sv \<mapsto> \<lparr>timerSeat = i, timerDue = d\<rparr>),
         nextTimer := Suc (nextTimer sv),
         seats := (seats sv)(i \<mapsto> (lockedSeat user e)\<lparr>timeoutId := Some (nextTimer sv)\<rparr>)\<rparr>) \<and>
        (case seats (sv\<lparr>timers := (timers sv)(nextTimer sv \<mapsto> \<lparr>timerSeat = i, timerDue = d\<rparr>),
         nextTimer := Suc (nextTimer sv),
         seats := (seats sv)(i \<mapsto> (lockedSeat user e)\<lparr>timeoutId := Some (nextTimer sv)\<rparr>)\<rparr>) (timerSeat tm) of None \<Rightarrow> False
         | Some s \<Rightarrow> status s = Locked \<and> timeoutId s = Some h)"
  proof (cases "h = nextTimer sv")
    case True
    with pend' show ?thesis by (auto simp add: lockedSeat_def)
  next
    case False
    with pend' have pend: "timers sv h = Some tm" by simp
    from ok pend have lt: "h < nextTimer sv"
      and st: "(case seats sv (timerSeat tm) of None \<Rightarrow> False
               | Some s \<Rightarrow> status s = Locked \<and> timeoutId s = Some h)"
      by (simp_all add: timersOK_def)
    from st si av have "timerSeat tm \<noteq> i" by auto
    with lt st show ?thesis by simp
  qed
qed

lemma timersOK_lock:
  assumes ok: "timersOK sv"
  shows "timersOK (snd (lock sv i user now))"
proof (cases "seats sv i")
  case None
  with ok show ?thesis by (simp add: lock_missing)
next
  case (Some s)
  show ?thesis
  proof (cases "status s")
    case Available
    with Some ok show ?thesis
      by (simp add: lock_available timersOK_arm)
  next
    case Booked
    with Some ok show ?thesis by (simp add: lock_booked)
  next
    case Locked
    show ?thesis
    proof (cases "expiredAt s now")
      case False
      with Some Locked ok show ?thesis by (simp add: lock_unexpired)
    next
      case True
      have "timersOK (reclaimed sv i)"
        using ok Some by (rule timersOK_reclaimed)
      then have "timersOK (snd (lock (reclaimed sv i) i user now))"
        using timersOK_arm [of "reclaimed sv i" i availableSeat]
        by (simp add: lock_available [OF reclaimed_available status_availableSeat]
            reclaimed_available status_availableSeat)
      with Some Locked True show ?thesis by (simp add: lock_expired)
    qed
  qed
qed

lemma timersOK_confirm:
  assumes ok: "timersOK sv"
  shows "timersOK (snd (confirm sv i user now))"
proof (cases "seats sv i")
  case None
  with ok show ?thesis by (simp add: confirm_missing)
next
  case (Some s)
  then show ?thesis
    using ok timersOK_replace [OF ok Some, of bookedSeat] timersOK_reclaimed [OF ok Some]
    by (simp add: confirm_def reclaimed_def seats_replace)
qed

lemma timersOK_unlock:
  assumes ok: "timersOK sv"
  shows "timersOK (snd (unlock sv i))"
proof (cases "seats sv i")
  case None
  with ok show ?thesis by (simp add: unlock_missing)
next
  case (Some s)
  then show ?thesis
    using ok timersOK_reclaimed [OF ok Some]
    by (simp add: unlock_def reclaimed_def)
qed

lemma timersOK_fire:
  assumes ok: "timersOK sv"
  shows "\<exists>sv'. fireTimer sv h now = Some sv' \<and> timersOK sv'"
proof (cases "timers sv h")
  case None
  with ok show ?thesis by (simp add: fireTimer_def)
next
  case (Some tm)
  from ok Some obtain s where si: "seats sv (timerSeat tm) = Some s"
    and st: "status s = Locked" and hd: "timeoutId s = Some h"
    by (auto simp add: timersOK_def split: option.splits)
  have rest: "timersOK (sv\<lparr>timers := (timers sv)(h := None)\<rparr>)"
    using ok by (auto simp add: timersOK_def)
  have gone: "timersOK (sv\<lparr>timers := (timers sv)(h := None),
                            seats := (seats sv)(timerSeat tm \<mapsto> availableSeat)\<rparr>)"
    unfolding timersOK_def
  proof (intro allI impI)
    fix h' tm'
    assume "timers (sv\<lparr>timers := (timers sv)(h := None),
                            seats := (seats sv)(timerSeat tm \<mapsto> availableSeat)\<rparr>) h' = Some tm'"
    then have ne: "h' \<noteq> h" and pend: "timers sv h' = Some tm'"
      by (auto split: if_splits)
    from ok pend have lt: "h' < nextTimer sv"
      and st': "(case seats sv (timerSeat tm') of None \<Rightarrow> False
               | Some s \<Rightarrow> status s = Locked \<and> timeoutId s = Some h')"
      by (simp_all add: timersOK_def)
    from st' si hd ne have "timerSeat tm' \<noteq> timerSeat tm" by auto
    with lt st' show "h' < nextTimer (sv\<lparr>timers := (timers sv)(h := None),
                            seats := (seats sv)(timerSeat tm \<mapsto> availableSeat)\<rparr>) \<and>
        (case seats (sv\<lparr>timers := (timers sv)(h := None),
                            seats := (seats sv)(timerSeat tm \<mapsto> availableSeat)\<rparr>) (timerSeat tm') of None \<Rightarrow> False
         | Some s \<Rightarrow> status s = Locked \<and> timeoutId s = Some h')"
      by simp
  qed
  from Some si rest gone ok show ?thesis
    by (simp add: fireTimer_def expiryCallback_def)
qed

lemma timersOK_step:
  "timersOK sv \<Longrightarrow> \<exists>sv'. step sv ev = Some sv' \<and> timersOK sv'"
  by (cases ev) (simp_all add: timersOK_lock timersOK_confirm timersOK_unlock timersOK_fire)

lemma timersOK_run:
  "timersOK sv \<Longrightarrow> \<exists>sv'. run sv evs = Some sv' \<and> timersOK sv'"
proof (induction evs arbitrary: sv)
  case Nil
  then show ?case by simp
next
  case (Cons ev evs)
  from timersOK_step [OF Cons.prems, of ev]
  obtain sv1 where s1: "step sv ev = Some sv1" and ok1: "timersOK sv1" by blast
  from Cons.IH [OF ok1] s1 show ?case by simp
qed

lemma shapeOK_initial: "shapeOK initial"
  by (simp add: shapeOK_def initial_def initialSeats_lookup availableSeat_def)

lemma shapeOK_store:
  assumes ok: "shapeOK sv"
    and x: "(lockedBy x \<noteq> None) = (status x = Locked)" "(lockExpiresAt x \<noteq> None) = (status x = Locked)"
    and sts: "seats sv' = (seats sv)(i \<mapsto> x)"
  shows "shapeOK sv'"
  using ok x unfolding shapeOK_def sts by simp

lemma shapeOK_clearSeatTimer: "shapeOK sv \<Longrightarrow> shapeOK (clearSeatTimer sv i)"
  by (auto simp add: shapeOK_def seats_clearSeatTimer split: option.splits if_splits)

lemma shapeOK_reclaimed: "shapeOK sv \<Longrightarrow> seats sv i = Some s \<Longrightarrow> shapeOK (reclaimed sv i)"
  by (rule shapeOK_store [where x = availableSeat and i = i])
     (simp_all add: availableSeat_def seats_reclaimed)

lemma shapeOK_lock: "shapeOK sv \<Longrightarrow> shapeOK (snd (lock sv i user now))"
proof (cases "seats sv i")
  case None
  assume "shapeOK sv"
  with None show ?thesis by (simp add: lock_missing)
next
  case (Some s)
  assume ok: "shapeOK sv"
  show ?thesis
  proof (cases "status s")
    case Available
    show ?thesis
      by (rule shapeOK_store [OF ok, where i = i
            and x = "(lockedSeat user (now + LOCK_TTL))\<lparr>timeoutId := Some (nextTimer sv)\<rparr>"])
         (simp_all add: lock_available [OF Some Available] lockedSeat_def)
  next
    case Booked
    with Some ok show ?thesis by (simp add: lock_booked)
  next
    case Locked
    show ?thesis
    proof (cases "expiredAt s now")
      case False
      with Some Locked ok show ?thesis by (simp add: lock_unexpired)
    next
      case True
      show ?thesis
        by (rule shapeOK_store [OF ok, where i = i
              and x = "(lockedSeat user (now + LOCK_TTL))\<lparr>timeoutId := Some (nextTimer sv)\<rparr>"])
           (simp_all add: lock_expired_result [OF Some Locked True] lockedSeat_def)
    qed
  qed
qed

lemma shapeOK_confirm: "shapeOK sv \<Longrightarrow> shapeOK (snd (confirm sv i user now))"
proof (cases "seats sv i")
  case None
  assume "shapeOK sv"
  with None show ?thesis by (simp add: confirm_missing)
next
  case (Some s)
  assume ok: "shapeOK sv"
  have b: "shapeOK ((clearSeatTimer sv i)\<lparr>seats := (seats sv)(i \<mapsto> bookedSeat)\<rparr>)"
    by (rule shapeOK_store [OF ok, where i = i and x = bookedSeat]) (simp_all add: bookedSeat_def)
  from Some ok b shapeOK_reclaimed [OF ok Some] show ?thesis
    by (simp add: confirm_def reclaimed_def seats_replace)
qed

lemma shapeOK_unlock: "shapeOK sv \<Longrightarrow> shapeOK (snd (unlock sv i))"
proof (cases "seats sv i")
  case None
  assume "shapeOK sv"
  with None show ?thesis by (simp add: unlock_missing)
next
  case (Some s)
  assume ok: "shapeOK sv"
  from Some ok shapeOK_reclaimed [OF ok Some] show ?thesis
    by (simp add: unlock_def reclaimed_def)
qed

lemma shapeOK_timers: "shapeOK sv \<Longrightarrow> shapeOK (sv\<lparr>timers := t\<rparr>)"
  by (simp add: shapeOK_def)

lemma shapeOK_callback:
  assumes ok: "shapeOK sv" and cb: "expiryCallback sv i now = Some sv'"
  shows "shapeOK sv'"
proof (cases "sv' = sv")
  case True
  with ok show ?thesis by simp
next
  case False
  with cb have "seats sv' = (seats sv)(i \<mapsto> availableSeat)"
    by (auto simp add: expiryCallback_def split: option.splits if_splits)
  then show ?thesis
    by (intro shapeOK_store [OF ok, where i = i and x = availableSeat])
       (simp_all add: availableSeat_def)
qed

lemma shapeOK_fire: "shapeOK sv \<Longrightarrow> fireTimer sv h now = Some sv' \<Longrightarrow> shapeOK sv'"
  by (auto simp add: fireTimer_def split: option.splits if_splits
      intro: shapeOK_callback [OF shapeOK_timers])

lemma shapeOK_step: "shapeOK sv \<Longrightarrow> step sv ev = Some sv' \<Longrightarrow> shapeOK sv'"
  by (cases ev) (auto simp add: shapeOK_lock shapeOK_confirm shapeOK_unlock shapeOK_fire)

lemma shapeOK_run: "shapeOK sv \<Longrightarrow> run sv evs = Some sv' \<Longrightarrow> shapeOK sv'"
proof (induction evs arbitrary: sv)
  case Nil
  then show ?case by simp
next
  case (Cons ev evs)
  then show ?case
    by (auto split: option.splits dest: shapeOK_step)
qed

section \<open>Frame\<close>

lemma seats_lock_other: "j \<noteq> i \<Longrightarrow> seats (snd (lock sv i user now)) j = seats sv j"
proof (cases "seats sv i")
  case None
  then show ?thesis by (simp add: lock_missing)
next
  case (Some s)
  assume ne: "j \<noteq> i"
  show ?thesis
  proof (cases "status s")
    case Available
    with Some ne show ?thesis by (simp add: lock_available)
  next
    case Booked
    with Some show ?thesis by (simp add: lock_booked)
  next
    case Locked
    with Some ne show ?thesis
      by (cases "expiredAt s now") (simp_all add: lock_unexpired lock_expired_result)
  qed
qed

lemma seats_confirm_other: "j \<noteq> i \<Longrightarrow> seats (snd (confirm sv i user now)) j = seats sv j"
  by (simp add: confirm_def seats_clearSeatTimer split: option.splits)

lemma seats_unlock_other: "j \<noteq> i \<Longrightarrow> seats (snd (unlock sv i)) j = seats sv j"
  by (simp add: unlock_def seats_clearSeatTimer split: option.splits)

lemma seats_fire_other:
  "fireTimer sv h now = Some sv' \<Longrightarrow> timers sv h = Some tm \<Longrightarrow> j \<noteq> timerSeat tm \<Longrightarrow>
   seats sv' j = seats sv j"
  by (auto simp add: fireTimer_def expiryCallback_def split: option.splits if_splits)

lemma seats_fire_idle: "timers sv h = None \<Longrightarrow> fireTimer sv h now = Some sv"
  by (simp add: fireTimer_def)

lemma dom_upd_same: "m i = Some s \<Longrightarrow> insert i (dom m) = dom m"
  by auto

lemma dom_seats_clearSeatTimer: "dom (seats (clearSeatTimer sv i)) = dom (seats sv)"
  by (auto simp add: seats_clearSeatTimer split: option.splits if_splits)

lemma dom_seats_lock: "dom (seats (snd (lock sv i user now))) = dom (seats sv)"
proof (cases "seats sv i")
  case None
  then show ?thesis by (simp add: lock_missing)
next
  case (Some s)
  show ?thesis
  proof (cases "status s")
    case Available
    with Some show ?thesis by (simp add: lock_available dom_upd_same)
  next
    case Booked
    with Some show ?thesis by (simp add: lock_booked)
  next
    case Locked
    with Some show ?thesis
      by (cases "expiredAt s now") (simp_all add: lock_unexpired lock_expired_result dom_upd_same)
  qed
qed

lemma dom_seats_confirm: "dom (seats (snd (confirm sv i user now))) = dom (seats sv)"
  by (cases "seats sv i") (simp_all add: confirm_def seats_replace dom_upd_same)

lemma dom_seats_unlock: "dom (seats (snd (unlock sv i))) = dom (seats sv)"
  by (cases "seats sv i") (simp_all add: unlock_def seats_replace dom_upd_same)

lemma dom_seats_fire: "fireTimer sv h now = Some sv' \<Longrightarrow> dom (seats sv') = dom (seats sv)"
  by (auto simp add: fireTimer_def expiryCallback_def split: option.splits if_splits)

section \<open>Booked\<close>

lemma booked_step:
  "statusOf sv i = Some Booked \<Longrightarrow> step sv ev = Some sv' \<Longrightarrow> statusOf sv' i = Some Booked"
proof (cases ev)
  case (Lock j user now)
  assume b: "statusOf sv i = Some Booked" and s: "step sv ev = Some sv'"
  show ?thesis
  proof (cases "j = i")
    case True
    with b s Lock show ?thesis by (auto simp add: statusOf_def lock_booked)
  next
    case False
    with b s Lock show ?thesis by (auto simp add: statusOf_def seats_lock_other)
  qed
next
  case (Confirm j user now)
  assume b: "statusOf sv i = Some Booked" and s: "step sv ev = Some sv'"
  show ?thesis
  proof (cases "j = i")
    case True
    with b s Confirm show ?thesis by (auto simp add: statusOf_def confirm_not_locked)
  next
    case False
    with b s Confirm show ?thesis by (auto simp add: statusOf_def seats_confirm_other)
  qed
next
  case (Unlock j)
  assume b: "statusOf sv i = Some Booked" and s: "step sv ev = Some sv'"
  show ?thesis
  proof (cases "j = i")
    case True
    with b s Unlock show ?thesis by (auto simp add: statusOf_def unlock_booked)
  next
    case False
    with b s Unlock show ?thesis by (auto simp add: statusOf_def seats_unlock_other)
  qed
next
  case ListSeats
  assume "statusOf sv i = Some Booked" "step sv ev = Some sv'"
  with ListSeats show ?thesis by simp
next
  case (Fire h now)
  assume "statusOf sv i = Some Booked" "step sv ev = Some sv'"
  with Fire show ?thesis
    by (auto simp add: statusOf_def fireTimer_def expiryCallback_def split: option.splits if_splits)
qed

lemma booked_run:
  "statusOf sv i = Some Booked \<Longrightarrow> run sv evs = Some sv' \<Longrightarrow> statusOf sv' i = Some Booked"
proof (induction evs arbitrary: sv)
  case Nil
  then show ?case by simp
next
  case (Cons ev evs)
  then show ?case
    by (auto split: option.splits dest: booked_step)
qed

section \<open>Responses and successful locks\<close>

lemma response_codes:
  "code (notFound i) = 404" "code (alreadyBooked i) = 409" "code (alreadyLocked i) = 423"
  "code (lockedOk i) = 200" "code notLocked = 400" "code lockExpired = 408"
  "code forbiddenOwner = 403" "code (bookedOk i) = 200" "code (alreadyAvailable i) = 200"
  "code (cannotUnlockBooked i) = 409" "code (lockCleared i) = 200" "code internalError = 500"
  by (simp_all add: reply_def notFound_def alreadyBooked_def alreadyLocked_def lockedOk_def
      notLocked_def lockExpired_def forbiddenOwner_def bookedOk_def alreadyAvailable_def
      cannotUnlockBooked_def lockCleared_def internalError_def)

lemma lock_ok_seat:
  assumes "code (fst (lock sv i user now)) = 200"
  shows "fst (lock sv i user now) = lockedOk i \<and>
         seats (snd (lock sv i user now)) i =
           Some ((lockedSeat user (now + LOCK_TTL))\<lparr>timeoutId := Some (nextTimer sv)\<rparr>)"
proof (cases "seats sv i")
  case None
  with assms show ?thesis by (simp add: lock_missing response_codes)
next
  case (Some s)
  show ?thesis
  proof (cases "status s")
    case Available
    with Some show ?thesis by (simp add: lock_available)
  next
    case Booked
    with Some assms show ?thesis by (simp add: lock_booked response_codes)
  next
    case Locked
    with Some assms show ?thesis
      by (cases "expiredAt s now") (simp_all add: lock_unexpired lock_expired_result response_codes)
  qed
qed

lemma lock_ok_holdsLock:
  "code (fst (lock sv i user now)) = 200 \<Longrightarrow>
   holdsLock (snd (lock sv i user now)) i user (now + LOCK_TTL)"
  by (drule lock_ok_seat) (simp add: holdsLock_def lockedSeat_def)

lemma holdsLockE:
  assumes "holdsLock sv i user e"
  obtains s where "seats sv i = Some s" "status s = Locked" "lockedBy s = Some user"
    "lockExpiresAt s = Some e"
  using assms by (auto simp add: holdsLock_def split: option.splits)

lemma seats_initial_1: "seats initial 1 = Some availableSeat"
  by (simp add: initial_def initialSeats_lookup TOTAL_SEATS_def)

lemma lock_initial_1:
  "lock initial 1 user now =
     (lockedOk 1,
      \<lparr>seats = initialSeats(1 \<mapsto> (lockedSeat user (now + LOCK_TTL))\<lparr>timeoutId := Some 0\<rparr>),
       timers = [0 \<mapsto> \<lparr>timerSeat = 1, timerDue = now + LOCK_TTL + 50\<rparr>],
       nextTimer = Suc 0\<rparr>)"
  by (simp add: lock_available [OF seats_initial_1 status_availableSeat]) (simp add: initial_def)

lemma confirm_held:
  assumes "holdsLock sv i user (t0 + LOCK_TTL)"
  shows "confirm sv i user now =
     (if now < t0 + LOCK_TTL
      then (bookedOk i, (clearSeatTimer sv i)\<lparr>seats := (seats sv)(i \<mapsto> bookedSeat)\<rparr>)
      else (lockExpired, reclaimed sv i))"
proof -
  from assms obtain s where s: "seats sv i = Some s" "status s = Locked"
    "lockedBy s = Some user" "lockExpiresAt s = Some (t0 + LOCK_TTL)"
    by (rule holdsLockE)
  from s(4) have "expiredAt s now = (t0 + LOCK_TTL \<le> now)" by (rule expiredAt_iff)
  with s show ?thesis
    by (simp add: confirm_owner confirm_expired)
qed


lemma fireTimer_due:
  assumes "timers sv h = Some tm" "timerDue tm \<le> now" "seats sv (timerSeat tm) = Some s"
  shows "fireTimer sv h now =
     Some (sv\<lparr>timers := (timers sv)(h := None),
              seats := (if status s = Locked \<and> expiredAt s now
                        then (seats sv)(timerSeat tm \<mapsto> availableSeat) else seats sv)\<rparr>)"
  using assms by (simp add: fireTimer_def expiryCallback_def)

lemma pending_timer_is_current:
  assumes "run initial evs = Some sv" "timers sv h = Some tm"
  shows "\<exists>s. seats sv (timerSeat tm) = Some s \<and> status s = Locked \<and> timeoutId s = Some h"
proof -
  from timersOK_run [OF timersOK_initial, of evs] assms(1) have "timersOK sv" by simp
  with assms(2) have "case seats sv (timerSeat tm) of None \<Rightarrow> False
      | Some s \<Rightarrow> status s = Locked \<and> timeoutId s = Some h"
    by (simp add: timersOK_def)
  then show ?thesis
    by (cases "seats sv (timerSeat tm)") simp_all
qed

lemma seats_lock_initial_1:
  "seats (snd (lock initial 1 user now)) 1 =
     Some ((lockedSeat user (now + LOCK_TTL))\<lparr>timeoutId := Some 0\<rparr>)"
  by (simp add: lock_initial_1)

lemma timers_lock_initial_1:
  "timers (snd (lock initial 1 user now)) 0 =
     Some \<lparr>timerSeat = 1, timerDue = now + LOCK_TTL + 50\<rparr>"
  by (simp add: lock_initial_1)

lemma timersOK_D:
  "timersOK sv \<Longrightarrow> timers sv h = Some tm \<Longrightarrow>
   h < nextTimer sv \<and>
   (case seats sv (timerSeat tm) of None \<Rightarrow> False
    | Some s \<Rightarrow> status s = Locked \<and> timeoutId s = Some h)"
  unfolding timersOK_def by blast

lemma listSeats_status: "listSeats sv i = statusOf sv i"
  by (simp add: listSeats_def statusOf_def)

lemma expiredAt_Some: "lockExpiresAt s = Some e \<Longrightarrow> e \<noteq> 0 \<Longrightarrow> expiredAt s now = (e \<le> now)"
  by (simp add: expiredAt_def)

lemma confirm_ok_booked:
  assumes "code (fst (confirm sv i user now)) = 200"
  shows "seats (snd (confirm sv i user now)) i = Some bookedSeat"
proof (cases "seats sv i")
  case None
  with assms show ?thesis by (simp add: confirm_missing response_codes)
next
  case (Some s)
  with assms show ?thesis
    by (simp add: confirm_def response_codes split: if_splits)
qed

lemma holdsLock_lock_initial_1:
  "holdsLock (snd (lock initial 1 user now)) 1 user (now + LOCK_TTL)"
  by (rule lock_ok_holdsLock) (simp add: lock_initial_1 response_codes)

lemma statusOf_booked:
  "statusOf sv i = Some Booked \<Longrightarrow> \<exists>s. seats sv i = Some s \<and> status s = Booked"
  by (auto simp add: statusOf_def)

lemma lock_never_throws: "code (fst (lock sv i user now)) \<noteq> 500"
proof (cases "seats sv i")
  case None
  then show ?thesis by (simp add: lock_missing response_codes)
next
  case (Some s)
  show ?thesis
  proof (cases "status s")
    case Available
    with Some show ?thesis by (simp add: lock_available response_codes)
  next
    case Booked
    with Some show ?thesis by (simp add: lock_booked response_codes)
  next
    case Locked
    with Some show ?thesis
      by (cases "expiredAt s now")
         (simp_all add: lock_unexpired lock_expired_result response_codes)
  qed
qed

section \<open>Explicit results, and the expiry instants of reachable states\<close>

lemma clearSeatTimer_explicit:
  "seats sv i = Some s \<Longrightarrow>
   (clearSeatTimer sv i)\<lparr>seats := (seats sv)(i \<mapsto> x)\<rparr> =
     sv\<lparr>timers := (case timeoutId s of None \<Rightarrow> timers sv | Some h \<Rightarrow> (timers sv)(h := None)),
        seats := (seats sv)(i \<mapsto> x)\<rparr>"
  by (simp add: clearSeatTimer_def split: option.splits)

lemma reclaimed_explicit:
  "seats sv i = Some s \<Longrightarrow>
   reclaimed sv i =
     sv\<lparr>timers := (case timeoutId s of None \<Rightarrow> timers sv | Some h \<Rightarrow> (timers sv)(h := None)),
        seats := (seats sv)(i \<mapsto> availableSeat)\<rparr>"
  by (simp add: reclaimed_def seats_replace clearSeatTimer_explicit)

lemma lock_expired_explicit:
  assumes "seats sv i = Some s" "status s = Locked" "expiredAt s now"
  shows "lock sv i user now =
     (lockedOk i,
      sv\<lparr>timers := (case timeoutId s of None \<Rightarrow> timers sv | Some h \<Rightarrow> (timers sv)(h := None))
                     (nextTimer sv \<mapsto> \<lparr>timerSeat = i, timerDue = now + LOCK_TTL + 50\<rparr>),
         nextTimer := Suc (nextTimer sv),
         seats := (seats sv)(i \<mapsto> \<lparr>status = Locked, lockedBy = Some user,
                    lockExpiresAt = Some (now + LOCK_TTL), timeoutId = Some (nextTimer sv)\<rparr>)\<rparr>)"
  using assms
  by (simp add: lock_expired_result reclaimed_explicit lockedSeat_def)


text \<open>The expiry instant of a record is never 0.\<close>

lemma expiryOK_initial: "expiryOK initial"
  by (simp add: expiryOK_def initial_def initialSeats_lookup availableSeat_def)

lemma expiryOK_store:
  assumes "expiryOK sv" and "lockExpiresAt x \<noteq> Some 0" and "seats sv' = (seats sv)(i \<mapsto> x)"
  shows "expiryOK sv'"
  using assms(1,2) unfolding expiryOK_def assms(3) by simp

lemma expiryOK_lock: "expiryOK sv \<Longrightarrow> expiryOK (snd (lock sv i user now))"
proof (cases "seats sv i")
  case None
  assume "expiryOK sv"
  with None show ?thesis by (simp add: lock_missing)
next
  case (Some s)
  assume ok: "expiryOK sv"
  have fresh: "lockExpiresAt ((lockedSeat user (now + LOCK_TTL))\<lparr>timeoutId := Some (nextTimer sv)\<rparr>)
                 \<noteq> Some 0"
    using LOCK_TTL_pos by (simp add: lockedSeat_def)
  show ?thesis
  proof (cases "status s")
    case Available
    show ?thesis
      by (rule expiryOK_store [OF ok fresh, where i = i])
         (simp add: lock_available [OF Some Available])
  next
    case Booked
    with Some ok show ?thesis by (simp add: lock_booked)
  next
    case Locked
    show ?thesis
    proof (cases "expiredAt s now")
      case False
      with Some Locked ok show ?thesis by (simp add: lock_unexpired)
    next
      case True
      show ?thesis
        by (rule expiryOK_store [OF ok fresh, where i = i])
           (simp add: lock_expired_result [OF Some Locked True])
    qed
  qed
qed

lemma expiryOK_reclaimed: "expiryOK sv \<Longrightarrow> seats sv i = Some s \<Longrightarrow> expiryOK (reclaimed sv i)"
  by (rule expiryOK_store [where x = availableSeat and i = i])
     (simp_all add: availableSeat_def seats_reclaimed)

lemma expiryOK_confirm: "expiryOK sv \<Longrightarrow> expiryOK (snd (confirm sv i user now))"
proof (cases "seats sv i")
  case None
  assume "expiryOK sv"
  with None show ?thesis by (simp add: confirm_missing)
next
  case (Some s)
  assume ok: "expiryOK sv"
  have b: "expiryOK ((clearSeatTimer sv i)\<lparr>seats := (seats sv)(i \<mapsto> bookedSeat)\<rparr>)"
    by (rule expiryOK_store [OF ok, where i = i and x = bookedSeat]) (simp_all add: bookedSeat_def)
  from Some ok b expiryOK_reclaimed [OF ok Some] show ?thesis
    by (simp add: confirm_def reclaimed_def seats_replace)
qed

lemma expiryOK_unlock: "expiryOK sv \<Longrightarrow> expiryOK (snd (unlock sv i))"
proof (cases "seats sv i")
  case None
  assume "expiryOK sv"
  with None show ?thesis by (simp add: unlock_missing)
next
  case (Some s)
  assume ok: "expiryOK sv"
  from Some ok expiryOK_reclaimed [OF ok Some] show ?thesis
    by (simp add: unlock_def reclaimed_def)
qed

lemma expiryOK_timers: "expiryOK sv \<Longrightarrow> expiryOK (sv\<lparr>timers := t\<rparr>)"
  by (simp add: expiryOK_def)

lemma expiryOK_callback:
  assumes ok: "expiryOK sv" and cb: "expiryCallback sv i now = Some sv'"
  shows "expiryOK sv'"
proof (cases "sv' = sv")
  case True
  with ok show ?thesis by simp
next
  case False
  with cb have "seats sv' = (seats sv)(i \<mapsto> availableSeat)"
    by (auto simp add: expiryCallback_def split: option.splits if_splits)
  then show ?thesis
    by (intro expiryOK_store [OF ok, where i = i and x = availableSeat])
       (simp_all add: availableSeat_def)
qed

lemma expiryOK_fire: "expiryOK sv \<Longrightarrow> fireTimer sv h now = Some sv' \<Longrightarrow> expiryOK sv'"
  by (auto simp add: fireTimer_def split: option.splits if_splits
      intro: expiryOK_callback [OF expiryOK_timers])

lemma expiryOK_step: "expiryOK sv \<Longrightarrow> step sv ev = Some sv' \<Longrightarrow> expiryOK sv'"
  by (cases ev) (auto simp add: expiryOK_lock expiryOK_confirm expiryOK_unlock expiryOK_fire)

lemma expiryOK_run: "expiryOK sv \<Longrightarrow> run sv evs = Some sv' \<Longrightarrow> expiryOK sv'"
proof (induction evs arbitrary: sv)
  case Nil
  then show ?case by simp
next
  case (Cons ev evs)
  then show ?case
    by (auto split: option.splits dest: expiryOK_step)
qed

lemma locked_expiry_reachable:
  assumes "run initial evs = Some sv" and "seats sv i = Some s" and "status s = Locked"
  shows "\<exists>e. lockExpiresAt s = Some e \<and> e \<noteq> 0"
proof -
  from shapeOK_run [OF shapeOK_initial assms(1)] assms(2,3)
  have "lockExpiresAt s \<noteq> None" unfolding shapeOK_def by blast
  moreover from expiryOK_run [OF expiryOK_initial assms(1)] assms(2)
  have "lockExpiresAt s \<noteq> Some 0" unfolding expiryOK_def by blast
  ultimately show ?thesis by (cases "lockExpiresAt s") auto
qed

lemma expiredAt_ex: "expiredAt s now = (\<exists>e. lockExpiresAt s = Some e \<and> e \<noteq> 0 \<and> e \<le> now)"
  by (simp add: expiredAt_def split: option.splits)

lemma expiryCallback_guard:
  "seats sv i = Some s \<Longrightarrow>
   expiryCallback sv i now =
     Some (if status s = Locked \<and> (\<exists>e. lockExpiresAt s = Some e \<and> e \<noteq> 0 \<and> e \<le> now)
           then sv\<lparr>seats := (seats sv)(i \<mapsto> availableSeat)\<rparr> else sv)"
  by (auto simp add: expiryCallback_def expiredAt_ex)

lemma confirm_expired_explicit:
  "seats sv i = Some s \<Longrightarrow> status s = Locked \<Longrightarrow> expiredAt s now \<Longrightarrow>
   confirm sv i user now =
     (lockExpired,
      sv\<lparr>timers := (case timeoutId s of None \<Rightarrow> timers sv | Some h \<Rightarrow> (timers sv)(h := None)),
         seats := (seats sv)(i \<mapsto> availableSeat)\<rparr>)"
  by (simp add: confirm_expired reclaimed_explicit)


section \<open>Claims\<close>

text \<open>
  Claim C1 (mutual exclusion on lock). Let seat \<open>s\<close> be locked with expiry
  \<open>t0 + LOCK_TTL\<close>, that is, hold a lock acquired at \<open>t0\<close>. A lock request of any
  caller \<open>B\<close> at an instant \<open>t < t0 + LOCK_TTL\<close> is answered 423 (already locked) and
  leaves the whole state as it was. At \<open>t \<ge> t0 + LOCK_TTL\<close> the request behaves as on
  the seat reclaimed to available (lazy expiry), is answered 200, and \<open>B\<close> holds the seat
  until \<open>t + LOCK_TTL\<close>. On an available seat a lock request succeeds, and a second one
  made before that lock expires fails with 423: of the two, exactly one succeeds.
\<close>

theorem lock_mutual_exclusion:
  assumes "seats sv s = Some seat"
  shows "(status seat = Locked \<and> lockExpiresAt seat = Some (t0 + LOCK_TTL) \<longrightarrow>
            (t < t0 + LOCK_TTL \<longrightarrow> lock sv s B t = (alreadyLocked s, sv)) \<and>
            (t0 + LOCK_TTL \<le> t \<longrightarrow>
               lock sv s B t = lock (reclaimed sv s) s B t \<and>
               seats (reclaimed sv s) s = Some availableSeat \<and>
               fst (lock sv s B t) = lockedOk s \<and>
               holdsLock (snd (lock sv s B t)) s B (t + LOCK_TTL))) \<and>
         (status seat = Available \<longrightarrow>
            fst (lock sv s A t1) = lockedOk s \<and>
            holdsLock (snd (lock sv s A t1)) s A (t1 + LOCK_TTL) \<and>
            (t2 < t1 + LOCK_TTL \<longrightarrow>
               lock (snd (lock sv s A t1)) s B t2 = (alreadyLocked s, snd (lock sv s A t1)))) \<and>
         code (alreadyLocked s) = 423 \<and> code (lockedOk s) = 200"
proof (intro conjI impI)
  assume h: "status seat = Locked \<and> lockExpiresAt seat = Some (t0 + LOCK_TTL)"
  {
    assume "t < t0 + LOCK_TTL"
    with h have "\<not> expiredAt seat t" by (simp add: expiredAt_iff)
    with assms h show "lock sv s B t = (alreadyLocked s, sv)" by (simp add: lock_unexpired)
  }
  {
    assume "t0 + LOCK_TTL \<le> t"
    with h have e: "expiredAt seat t" by (simp add: expiredAt_iff)
    from assms h e show "lock sv s B t = lock (reclaimed sv s) s B t"
      by (simp add: lock_expired)
    show "seats (reclaimed sv s) s = Some availableSeat" by (rule reclaimed_available)
    from assms h e show ok: "fst (lock sv s B t) = lockedOk s"
      by (simp add: lock_expired_result)
    then show "holdsLock (snd (lock sv s B t)) s B (t + LOCK_TTL)"
      by (simp add: lock_ok_holdsLock response_codes)
  }
next
  assume a: "status seat = Available"
  with assms show ok: "fst (lock sv s A t1) = lockedOk s" by (simp add: lock_available)
  then show held: "holdsLock (snd (lock sv s A t1)) s A (t1 + LOCK_TTL)"
    by (simp add: lock_ok_holdsLock response_codes)
  {
    assume lt: "t2 < t1 + LOCK_TTL"
    from held obtain x where x: "seats (snd (lock sv s A t1)) s = Some x" "status x = Locked"
      "lockExpiresAt x = Some (t1 + LOCK_TTL)"
      by (rule holdsLockE)
    from x(3) lt have "\<not> expiredAt x t2" by (simp add: expiredAt_iff)
    with x show "lock (snd (lock sv s A t1)) s B t2 = (alreadyLocked s, snd (lock sv s A t1))"
      by (simp add: lock_unexpired)
  }
qed (simp_all add: response_codes)

theorem lock_mutual_exclusion_witness:
  "lock (snd (lock initial 1 ''A'' 0)) 1 ''B'' 59999 = (alreadyLocked 1, snd (lock initial 1 ''A'' 0)) \<and>
   fst (lock (snd (lock initial 1 ''A'' 0)) 1 ''B'' 60000) = lockedOk 1 \<and>
   holdsLock (snd (lock (snd (lock initial 1 ''A'' 0)) 1 ''B'' 60000)) 1 ''B'' 120000 \<and>
   fst (lock initial 1 ''A'' 0) = lockedOk 1 \<and>
   holdsLock (snd (lock initial 1 ''A'' 0)) 1 ''A'' 60000"
proof -
  let ?x = "(lockedSeat ''A'' (0 + LOCK_TTL))\<lparr>timeoutId := Some 0\<rparr>"
  have s1: "seats (snd (lock initial 1 ''A'' 0)) 1 = Some ?x"
    by (simp add: lock_initial_1)
  have held: "status ?x = Locked \<and> lockExpiresAt ?x = Some (0 + LOCK_TTL)"
    by (simp add: lockedSeat_def)
  have before: "(59999::nat) < 0 + LOCK_TTL" and after: "0 + LOCK_TTL \<le> (60000::nat)"
    by (simp_all add: LOCK_TTL_def)
  have free: "status availableSeat = Available"
    by (rule status_availableSeat)
  from lock_mutual_exclusion [OF s1, where ?t0.0 = 0 and t = 59999 and B = "''B''"] held before
  have early: "lock (snd (lock initial 1 ''A'' 0)) 1 ''B'' 59999 =
                 (alreadyLocked 1, snd (lock initial 1 ''A'' 0))"
    by blast
  from lock_mutual_exclusion [OF s1, where ?t0.0 = 0 and t = 60000 and B = "''B''"] held after
  have late: "fst (lock (snd (lock initial 1 ''A'' 0)) 1 ''B'' 60000) = lockedOk 1 \<and>
              holdsLock (snd (lock (snd (lock initial 1 ''A'' 0)) 1 ''B'' 60000)) 1 ''B'' (60000 + LOCK_TTL)"
    by blast
  from lock_mutual_exclusion [OF seats_initial_1, where ?t1.0 = 0 and A = "''A''"] free
  have fresh: "fst (lock initial 1 ''A'' 0) = lockedOk 1 \<and>
               holdsLock (snd (lock initial 1 ''A'' 0)) 1 ''A'' (0 + LOCK_TTL)"
    by blast
  from early late fresh show ?thesis
    by (simp add: LOCK_TTL_def)
qed






text \<open>
  Claim C3 (scheduled-expiry safety). The code keeps no epoch counter; what identifies a
  lock is the handle of the timeout armed for it, which the lock's record holds.

  The callback, run at \<open>t\<close> for seat \<open>i\<close> in any store, reads the record stored at that
  moment and replaces it by the available record only if its status is \<open>Locked\<close> and
  its expiry is set and \<open>\<le> t\<close>; in every other case it leaves the store as it is.

  When the server has reached \<open>sv\<close> from startup and the pending timeout \<open>h\<close>, armed
  for seat \<open>timerSeat tm\<close>, fires at \<open>now\<close>, the record \<open>s\<close> it finds is locked and
  holds the very handle \<open>h\<close>: no timeout of an earlier lock is ever left pending, so
  none can evict a later lock. The seat is reclaimed only if \<open>s\<close> is locked, holds
  \<open>h\<close> and has its expiry \<open>e \<le> now\<close>; otherwise the seats are unchanged.
\<close>

theorem scheduled_expiry_safety:
  "(seats sv0 i = Some s0 \<longrightarrow>
      expiryCallback sv0 i t =
        Some (if status s0 = Locked \<and> (\<exists>e. lockExpiresAt s0 = Some e \<and> e \<noteq> 0 \<and> e \<le> t)
              then sv0\<lparr>seats := (seats sv0)(i \<mapsto> availableSeat)\<rparr> else sv0)) \<and>
   (run initial evs = Some sv \<and> timers sv h = Some tm \<and> timerDue tm \<le> now \<longrightarrow>
      (\<exists>s e. seats sv (timerSeat tm) = Some s \<and> status s = Locked \<and>
           timeoutId s = Some h \<and> lockExpiresAt s = Some e \<and>
           fireTimer sv h now =
             Some (sv\<lparr>timers := (timers sv)(h := None),
                      seats := (if status s = Locked \<and> timeoutId s = Some h \<and> e \<le> now
                                then (seats sv)(timerSeat tm \<mapsto> availableSeat)
                                else seats sv)\<rparr>)))"
proof (intro conjI impI)
  assume "seats sv0 i = Some s0"
  then show "expiryCallback sv0 i t =
        Some (if status s0 = Locked \<and> (\<exists>e. lockExpiresAt s0 = Some e \<and> e \<noteq> 0 \<and> e \<le> t)
              then sv0\<lparr>seats := (seats sv0)(i \<mapsto> availableSeat)\<rparr> else sv0)"
    by (rule expiryCallback_guard)
next
  assume a: "run initial evs = Some sv \<and> timers sv h = Some tm \<and> timerDue tm \<le> now"
  then have reach: "run initial evs = Some sv" and pend: "timers sv h = Some tm"
    and due: "timerDue tm \<le> now"
    by simp_all
  from pending_timer_is_current [OF reach pend]
  obtain s where s: "seats sv (timerSeat tm) = Some s" "status s = Locked" "timeoutId s = Some h"
    by blast
  from locked_expiry_reachable [OF reach s(1,2)]
  obtain e where e: "lockExpiresAt s = Some e" "e \<noteq> 0" by blast
  from e have ex: "expiredAt s now = (e \<le> now)" by (simp add: expiredAt_def)
  have "fireTimer sv h now =
             Some (sv\<lparr>timers := (timers sv)(h := None),
                      seats := (if status s = Locked \<and> timeoutId s = Some h \<and> e \<le> now
                                then (seats sv)(timerSeat tm \<mapsto> availableSeat)
                                else seats sv)\<rparr>)"
    using fireTimer_due [OF pend due s(1)] s(2,3) ex by simp
  with s e(1) show "\<exists>s e. seats sv (timerSeat tm) = Some s \<and> status s = Locked \<and>
           timeoutId s = Some h \<and> lockExpiresAt s = Some e \<and>
           fireTimer sv h now =
             Some (sv\<lparr>timers := (timers sv)(h := None),
                      seats := (if status s = Locked \<and> timeoutId s = Some h \<and> e \<le> now
                                then (seats sv)(timerSeat tm \<mapsto> availableSeat)
                                else seats sv)\<rparr>)"
    by blast
qed

theorem scheduled_expiry_safety_witness:
  "fireTimer (snd (lock initial 1 ''A'' 0)) 0 60050 =
     Some \<lparr>seats = initialSeats(1 \<mapsto> availableSeat), timers = Map.empty, nextTimer = Suc 0\<rparr> \<and>
   seats (snd (lock initial 1 ''A'' 0)) 1 =
     Some \<lparr>status = Locked, lockedBy = Some ''A'', lockExpiresAt = Some 60000, timeoutId = Some 0\<rparr> \<and>
   expiryCallback (snd (lock initial 1 ''A'' 0)) 1 59999 = Some (snd (lock initial 1 ''A'' 0)) \<and>
   expiryCallback initial 1 60050 = Some initial"
proof -
  let ?sv = "snd (lock initial 1 ''A'' 0)"
  let ?x = "(lockedSeat ''A'' (0 + LOCK_TTL))\<lparr>timeoutId := Some 0\<rparr>"
  have r: "run initial [Lock 1 ''A'' 0] = Some ?sv \<and>
           timers ?sv 0 = Some \<lparr>timerSeat = 1, timerDue = 0 + LOCK_TTL + 50\<rparr> \<and>
           timerDue \<lparr>timerSeat = 1, timerDue = 0 + LOCK_TTL + 50\<rparr> \<le> 60050"
    by (simp add: timers_lock_initial_1 LOCK_TTL_def)
  from scheduled_expiry_safety [of _ _ _ _ "[Lock 1 ''A'' 0]" ?sv 0
      "\<lparr>timerSeat = 1, timerDue = 0 + LOCK_TTL + 50\<rparr>" 60050] r
  have "\<exists>s e. seats ?sv (timerSeat \<lparr>timerSeat = 1, timerDue = 0 + LOCK_TTL + 50\<rparr>) = Some s \<and>
           status s = Locked \<and> timeoutId s = Some 0 \<and> lockExpiresAt s = Some e \<and>
           fireTimer ?sv 0 60050 =
             Some (?sv\<lparr>timers := (timers ?sv)(0 := None),
                      seats := (if status s = Locked \<and> timeoutId s = Some 0 \<and> e \<le> 60050
                                then (seats ?sv)(timerSeat \<lparr>timerSeat = 1, timerDue = 0 + LOCK_TTL + 50\<rparr> \<mapsto> availableSeat)
                                else seats ?sv)\<rparr>)"
    by blast
  then have fired: "fireTimer ?sv 0 60050 =
     Some \<lparr>seats = initialSeats(1 \<mapsto> availableSeat), timers = Map.empty, nextTimer = Suc 0\<rparr>"
    by (auto simp add: lock_initial_1 lockedSeat_def LOCK_TTL_def)
  have s1: "seats ?sv 1 = Some ?x" by (rule seats_lock_initial_1)
  from scheduled_expiry_safety [of ?sv 1 ?x 59999] s1
  have early: "expiryCallback ?sv 1 59999 = Some ?sv"
    by (simp add: lockedSeat_def LOCK_TTL_def)
  from scheduled_expiry_safety [of initial 1 availableSeat 60050] seats_initial_1
  have idle: "expiryCallback initial 1 60050 = Some initial"
    by (simp add: availableSeat_def)
  from fired early idle s1 show ?thesis
    by (simp add: lockedSeat_def LOCK_TTL_def)
qed

text \<open>
  Claim C4 (lazy expiry), as the code has it. Lazy expiry is what \<open>lock\<close> and
  \<open>confirm\<close> do, and its test is \<open>lockExpiresAt \<le> now\<close> at the instant of the
  request. Take a locked seat whose expiry \<open>e\<close> is set (and not 0) and whose record
  holds the timeout handle \<open>timeoutId seat\<close>. While \<open>now < e\<close>, \<open>lock\<close> answers 423
  and leaves the state alone. From \<open>e\<close> on, \<open>lock\<close> behaves as on the state in which
  the seat has first been reclaimed (the timeout of the old lock removed from the pending
  ones, the available record stored): it answers 200, the old timeout is no longer
  pending, a fresh one is, and the record is the new caller's lock until
  \<open>now + LOCK_TTL\<close>. \<open>confirm\<close> at \<open>now \<ge> e\<close> answers 408, removes the old timeout
  from the pending ones and stores the available record; it answers 408 at no earlier
  instant. \<open>listSeats\<close> does not read the clock and changes nothing: it reports the
  stored status, \<open>Locked\<close>, also after the expiry.
\<close>

theorem lazy_expiry_on_lock_and_confirm:
  assumes "seats sv s = Some seat" and "status seat = Locked"
    and "lockExpiresAt seat = Some e" and "e \<noteq> 0"
  shows "(now < e \<longrightarrow> lock sv s u now = (alreadyLocked s, sv)) \<and>
         (e \<le> now \<longrightarrow>
            lock sv s u now =
              lock (sv\<lparr>timers := (case timeoutId seat of None \<Rightarrow> timers sv
                                    | Some h \<Rightarrow> (timers sv)(h := None)),
                       seats := (seats sv)(s \<mapsto> availableSeat)\<rparr>) s u now \<and>
            lock sv s u now =
              (lockedOk s,
               sv\<lparr>timers := (case timeoutId seat of None \<Rightarrow> timers sv
                               | Some h \<Rightarrow> (timers sv)(h := None))
                              (nextTimer sv \<mapsto> \<lparr>timerSeat = s, timerDue = now + LOCK_TTL + 50\<rparr>),
                  nextTimer := Suc (nextTimer sv),
                  seats := (seats sv)(s \<mapsto> \<lparr>status = Locked, lockedBy = Some u,
                             lockExpiresAt = Some (now + LOCK_TTL),
                             timeoutId = Some (nextTimer sv)\<rparr>)\<rparr>) \<and>
            confirm sv s u now =
              (lockExpired,
               sv\<lparr>timers := (case timeoutId seat of None \<Rightarrow> timers sv
                               | Some h \<Rightarrow> (timers sv)(h := None)),
                  seats := (seats sv)(s \<mapsto> availableSeat)\<rparr>)) \<and>
         (code (fst (confirm sv s u now)) = 408) = (e \<le> now) \<and>
         code (lockedOk s) = 200 \<and> code (alreadyLocked s) = 423 \<and>
         listSeats sv s = Some Locked"
proof -
  from assms(3,4) have ex: "expiredAt seat now = (e \<le> now)" by (rule expiredAt_Some)
  have early: "now < e \<longrightarrow> lock sv s u now = (alreadyLocked s, sv)"
    using assms(1,2) ex by (simp add: lock_unexpired)
  have first: "e \<le> now \<longrightarrow> lock sv s u now =
              lock (sv\<lparr>timers := (case timeoutId seat of None \<Rightarrow> timers sv
                                    | Some h \<Rightarrow> (timers sv)(h := None)),
                       seats := (seats sv)(s \<mapsto> availableSeat)\<rparr>) s u now"
    using assms(1,2) ex lock_expired [OF assms(1,2), of now u]
    by (simp add: reclaimed_explicit [OF assms(1)])
  have late: "e \<le> now \<longrightarrow> lock sv s u now =
              (lockedOk s,
               sv\<lparr>timers := (case timeoutId seat of None \<Rightarrow> timers sv
                               | Some h \<Rightarrow> (timers sv)(h := None))
                              (nextTimer sv \<mapsto> \<lparr>timerSeat = s, timerDue = now + LOCK_TTL + 50\<rparr>),
                  nextTimer := Suc (nextTimer sv),
                  seats := (seats sv)(s \<mapsto> \<lparr>status = Locked, lockedBy = Some u,
                             lockExpiresAt = Some (now + LOCK_TTL),
                             timeoutId = Some (nextTimer sv)\<rparr>)\<rparr>)"
    using assms(1,2) ex by (simp add: lock_expired_explicit)
  have c: "e \<le> now \<longrightarrow> confirm sv s u now =
              (lockExpired,
               sv\<lparr>timers := (case timeoutId seat of None \<Rightarrow> timers sv
                               | Some h \<Rightarrow> (timers sv)(h := None)),
                  seats := (seats sv)(s \<mapsto> availableSeat)\<rparr>)"
    using assms(1,2) ex by (simp add: confirm_expired_explicit)
  have c': "(code (fst (confirm sv s u now)) = 408) = (e \<le> now)"
    using assms(1,2) ex by (simp add: confirm_def response_codes)
  have v: "listSeats sv s = Some Locked"
    using assms(1,2) by (simp add: listSeats_def)
  from early first late c c' v show ?thesis
    by (simp only: response_codes) blast
qed

theorem lazy_expiry_on_lock_and_confirm_witness:
  "lock (snd (lock initial 1 ''A'' 0)) 1 ''B'' 60001 =
     (lockedOk 1,
      \<lparr>seats = initialSeats(1 \<mapsto> \<lparr>status = Locked, lockedBy = Some ''B'',
                  lockExpiresAt = Some 120001, timeoutId = Some 1\<rparr>),
       timers = [1 \<mapsto> \<lparr>timerSeat = 1, timerDue = 120051\<rparr>],
       nextTimer = 2\<rparr>) \<and>
   confirm (snd (lock initial 1 ''A'' 0)) 1 ''A'' 60001 =
     (lockExpired,
      \<lparr>seats = initialSeats(1 \<mapsto> availableSeat), timers = Map.empty, nextTimer = 1\<rparr>) \<and>
   lock (snd (lock initial 1 ''A'' 0)) 1 ''B'' 59999 = (alreadyLocked 1, snd (lock initial 1 ''A'' 0)) \<and>
   listSeats (snd (lock initial 1 ''A'' 0)) 1 = Some Locked"
proof -
  let ?sv = "snd (lock initial 1 ''A'' 0)"
  let ?x = "(lockedSeat ''A'' (0 + LOCK_TTL))\<lparr>timeoutId := Some 0\<rparr>"
  have s1: "seats ?sv 1 = Some ?x"
    by (rule seats_lock_initial_1)
  have st: "status ?x = Locked" and ex: "lockExpiresAt ?x = Some 60000" and nz: "(60000::nat) \<noteq> 0"
    by (simp_all add: lockedSeat_def LOCK_TTL_def)
  have late: "(60000::nat) \<le> 60001" and early: "(59999::nat) < 60000"
    by simp_all
  from lazy_expiry_on_lock_and_confirm [OF s1 st ex nz, of 60001 "''B''"] late
  have a: "lock ?sv 1 ''B'' 60001 =
              (lockedOk 1,
               ?sv\<lparr>timers := (case timeoutId ?x of None \<Rightarrow> timers ?sv
                               | Some h \<Rightarrow> (timers ?sv)(h := None))
                              (nextTimer ?sv \<mapsto> \<lparr>timerSeat = 1, timerDue = 60001 + LOCK_TTL + 50\<rparr>),
                  nextTimer := Suc (nextTimer ?sv),
                  seats := (seats ?sv)(1 \<mapsto> \<lparr>status = Locked, lockedBy = Some ''B'',
                             lockExpiresAt = Some (60001 + LOCK_TTL),
                             timeoutId = Some (nextTimer ?sv)\<rparr>)\<rparr>)"
    by blast
  from lazy_expiry_on_lock_and_confirm [OF s1 st ex nz, of 60001 "''A''"] late
  have b: "confirm ?sv 1 ''A'' 60001 =
              (lockExpired,
               ?sv\<lparr>timers := (case timeoutId ?x of None \<Rightarrow> timers ?sv
                               | Some h \<Rightarrow> (timers ?sv)(h := None)),
                  seats := (seats ?sv)(1 \<mapsto> availableSeat)\<rparr>)"
    by blast
  from lazy_expiry_on_lock_and_confirm [OF s1 st ex nz, of 59999 "''B''"] early
  have c: "lock ?sv 1 ''B'' 59999 = (alreadyLocked 1, ?sv) \<and> listSeats ?sv 1 = Some Locked"
    by blast
  have a': "lock ?sv 1 ''B'' 60001 =
     (lockedOk 1,
      \<lparr>seats = initialSeats(1 \<mapsto> \<lparr>status = Locked, lockedBy = Some ''B'',
                  lockExpiresAt = Some 120001, timeoutId = Some 1\<rparr>),
       timers = [1 \<mapsto> \<lparr>timerSeat = 1, timerDue = 120051\<rparr>],
       nextTimer = 2\<rparr>)"
    unfolding a by (simp add: lock_initial_1 lockedSeat_def LOCK_TTL_def)
  have b': "confirm ?sv 1 ''A'' 60001 =
     (lockExpired,
      \<lparr>seats = initialSeats(1 \<mapsto> availableSeat), timers = Map.empty, nextTimer = 1\<rparr>)"
    unfolding b by (simp add: lock_initial_1 lockedSeat_def)
  from a' b' c show ?thesis by blast
qed

text \<open>
  The claim as written fails for \<open>listSeats\<close>: seat 1, locked at 0 and so expired from
  60000 on, is listed as \<open>Locked\<close> at whatever later instant the view is asked for
  (the handler reads no clock), and the request leaves the state as it was.
\<close>

theorem listSeats_reports_expired_lock:
  "holdsLock (snd (lock initial 1 ''A'' 0)) 1 ''A'' 60000 \<and>
   listSeats (snd (lock initial 1 ''A'' 0)) 1 = Some Locked \<and>
   step (snd (lock initial 1 ''A'' 0)) ListSeats = Some (snd (lock initial 1 ''A'' 0)) \<and>
   fst (lock (snd (lock initial 1 ''A'' 0)) 1 ''B'' 60001) = lockedOk 1"
proof -
  let ?x = "(lockedSeat ''A'' (0 + LOCK_TTL))\<lparr>timeoutId := Some 0\<rparr>"
  have s1: "seats (snd (lock initial 1 ''A'' 0)) 1 = Some ?x"
    by (rule seats_lock_initial_1)
  have "expiredAt ?x 60001"
    by (simp add: expiredAt_def lockedSeat_def LOCK_TTL_def)
  with s1 have "fst (lock (snd (lock initial 1 ''A'' 0)) 1 ''B'' 60001) = lockedOk 1"
    by (simp add: lock_expired_result lockedSeat_def)
  with s1 show ?thesis
    by (simp add: holdsLock_def listSeats_def lockedSeat_def LOCK_TTL_def)
qed

text \<open>
  Claim C5 (effect of a successful lock), as the code has it. In a state the server can
  reach from startup, \<open>lock(s, u, now)\<close> on an available seat is answered 200 with the
  fixed message \<open>lockedOk s\<close> (it names the seat; the expiry instant is not in it),
  stores the record \<open>status = Locked, lockedBy = u, lockExpiresAt = now + LOCK_TTL\<close>
  holding a fresh timeout handle, and adds that timeout, due at
  \<open>now + LOCK_TTL + 50\<close>, to the pending ones; no other timeout of the seat is pending
  afterwards.
\<close>

theorem lock_available_effect:
  assumes "run initial evs = Some sv" and "seats sv s = Some seat"
    and "status seat = Available"
  shows "fst (lock sv s u now) = lockedOk s \<and> code (lockedOk s) = 200 \<and>
         seats (snd (lock sv s u now)) s =
           Some \<lparr>status = Locked, lockedBy = Some u, lockExpiresAt = Some (now + LOCK_TTL),
                 timeoutId = Some (nextTimer sv)\<rparr> \<and>
         timers sv (nextTimer sv) = None \<and>
         timers (snd (lock sv s u now)) =
           (timers sv)(nextTimer sv \<mapsto> \<lparr>timerSeat = s, timerDue = now + LOCK_TTL + 50\<rparr>) \<and>
         (\<forall>h tm. timers (snd (lock sv s u now)) h = Some tm \<and> timerSeat tm = s \<longrightarrow>
                  h = nextTimer sv)"
proof -
  from timersOK_run [OF timersOK_initial, of evs] assms(1) have ok: "timersOK sv" by simp
  have fresh: "timers sv (nextTimer sv) = None"
  proof (cases "timers sv (nextTimer sv)")
    case None
    then show ?thesis .
  next
    case (Some tm)
    from timersOK_D [OF ok Some] have "nextTimer sv < nextTimer sv" by simp
    then show ?thesis by simp
  qed
  have only: "h = nextTimer sv"
    if "timers (snd (lock sv s u now)) h = Some tm \<and> timerSeat tm = s" for h tm
  proof (rule ccontr)
    assume ne: "h \<noteq> nextTimer sv"
    with that assms(2,3) have pend: "timers sv h = Some tm" and ts: "timerSeat tm = s"
      by (simp_all add: lock_available)
    from timersOK_D [OF ok pend] ts assms(2,3) show False by simp
  qed
  have alone: "\<forall>h tm. timers (snd (lock sv s u now)) h = Some tm \<and> timerSeat tm = s \<longrightarrow>
                  h = nextTimer sv"
    using only by blast
  have eff: "fst (lock sv s u now) = lockedOk s \<and> code (lockedOk s) = 200 \<and>
         seats (snd (lock sv s u now)) s =
           Some \<lparr>status = Locked, lockedBy = Some u, lockExpiresAt = Some (now + LOCK_TTL),
                 timeoutId = Some (nextTimer sv)\<rparr> \<and>
         timers sv (nextTimer sv) = None \<and>
         timers (snd (lock sv s u now)) =
           (timers sv)(nextTimer sv \<mapsto> \<lparr>timerSeat = s, timerDue = now + LOCK_TTL + 50\<rparr>)"
    using assms(2,3) fresh by (simp add: lock_available response_codes lockedSeat_def)
  from eff alone show ?thesis by blast
qed

theorem lock_available_effect_witness:
  "fst (lock initial 1 ''A'' 0) = lockedOk 1 \<and>
   seats (snd (lock initial 1 ''A'' 0)) 1 =
     Some \<lparr>status = Locked, lockedBy = Some ''A'', lockExpiresAt = Some 60000, timeoutId = Some 0\<rparr> \<and>
   timers (snd (lock initial 1 ''A'' 0)) = [0 \<mapsto> \<lparr>timerSeat = 1, timerDue = 60050\<rparr>]"
proof -
  have r: "run initial [] = Some initial" by simp
  from lock_available_effect [OF r seats_initial_1 status_availableSeat, of "''A''" 0]
  show ?thesis
    by (simp add: LOCK_TTL_def initial_def)
qed

text \<open>
  The claim as written fails on the response: a lock taken at 0 (expiring at 60000) and
  one taken at 5000 (expiring at 65000) are answered with the same body, a fixed
  sentence about the seat, so the caller is not told the expiry instant.
\<close>

theorem lock_reply_without_expiry:
  "fst (lock initial 1 ''A'' 0) =
     \<lparr>code = 200, message = ''Seat 1 locked successfully. Confirm within 1 minute.''\<rparr> \<and>
   fst (lock initial 1 ''A'' 5000) = fst (lock initial 1 ''A'' 0) \<and>
   holdsLock (snd (lock initial 1 ''A'' 0)) 1 ''A'' 60000 \<and>
   holdsLock (snd (lock initial 1 ''A'' 5000)) 1 ''A'' 65000"
  by (simp add: lock_initial_1 holdsLock_def lockedSeat_def LOCK_TTL_def lockedOk_def reply_def
      showInt_def showNat.simps)

text \<open>
  Claim C7 (Booked is terminal). Let \<open>confirm\<close> succeed (code 200) on seat \<open>s\<close> in a
  state the server has reached from startup. Then whatever happens afterwards (any
  sequence \<open>evs\<close> of requests and timeout firings, at any instants) the server keeps
  running and seat \<open>s\<close> stays booked: in the state reached, every \<open>lock\<close> on the seat
  is answered 409 (already booked), every \<open>unlock\<close> 409 (booked; cannot unlock),
  every \<open>confirm\<close> 400 (not locked), each leaving the state as it was.
\<close>

theorem booked_is_terminal:
  assumes "run initial evs0 = Some sv" and "code (fst (confirm sv s u t)) = 200"
  shows "\<exists>sv'. run (snd (confirm sv s u t)) evs = Some sv' \<and>
           statusOf sv' s = Some Booked \<and>
           lock sv' s u' t' = (alreadyBooked s, sv') \<and> code (alreadyBooked s) = 409 \<and>
           unlock sv' s = (cannotUnlockBooked s, sv') \<and> code (cannotUnlockBooked s) = 409 \<and>
           confirm sv' s u' t' = (notLocked, sv') \<and> code notLocked = 400"
proof -
  from timersOK_run [OF timersOK_initial, of evs0] assms(1) have "timersOK sv" by simp
  then have "timersOK (snd (confirm sv s u t))" by (rule timersOK_confirm)
  from timersOK_run [OF this, of evs]
  obtain sv' where r: "run (snd (confirm sv s u t)) evs = Some sv'" by blast
  from confirm_ok_booked [OF assms(2)]
  have "statusOf (snd (confirm sv s u t)) s = Some Booked"
    by (simp add: statusOf_def bookedSeat_def)
  from booked_run [OF this r] have b: "statusOf sv' s = Some Booked" .
  then obtain x where x: "seats sv' s = Some x" "status x = Booked"
    using statusOf_booked by blast
  from r b x show ?thesis
    by (simp add: lock_booked unlock_booked confirm_not_locked response_codes)
qed

theorem booked_is_terminal_witness:
  "\<exists>sv'. run (snd (confirm (snd (lock initial 1 ''A'' 0)) 1 ''A'' 59999))
            [Unlock 1, Fire 0 60050, Lock 1 ''B'' 70000, Confirm 1 ''B'' 70001] = Some sv' \<and>
         statusOf sv' 1 = Some Booked \<and>
         lock sv' 1 ''C'' 200000 = (alreadyBooked 1, sv') \<and>
         unlock sv' 1 = (cannotUnlockBooked 1, sv') \<and>
         confirm sv' 1 ''C'' 200000 = (notLocked, sv')"
proof -
  have r: "run initial [Lock 1 ''A'' 0] = Some (snd (lock initial 1 ''A'' 0))"
    by simp
  have held: "holdsLock (snd (lock initial 1 ''A'' 0)) 1 ''A'' (0 + LOCK_TTL)"
    by (rule holdsLock_lock_initial_1)
  have ok: "code (fst (confirm (snd (lock initial 1 ''A'' 0)) 1 ''A'' 59999)) = 200"
    by (simp add: confirm_held [OF held] LOCK_TTL_def response_codes)
  from booked_is_terminal [OF r ok,
      of "[Unlock 1, Fire 0 60050, Lock 1 ''B'' 70000, Confirm 1 ''B'' 70001]" "''C''" 200000]
  show ?thesis by blast
qed

text \<open>
  Claim C8 (state shape). \<open>shapeOK\<close>: in every seat record, \<open>lockedBy\<close> is present
  exactly when the status is \<open>Locked\<close>, and so is \<open>lockExpiresAt\<close>. It holds at
  startup; \<open>lock\<close>, \<open>confirm\<close>, \<open>unlock\<close> and a firing timeout each preserve it,
  from any state that has it; so the server, which never crashes, has it after every
  sequence of requests and timeout firings.
\<close>

theorem state_shape_invariant:
  "shapeOK initial \<and>
   (shapeOK sv \<longrightarrow>
      shapeOK (snd (lock sv i u now)) \<and> shapeOK (snd (confirm sv i u now)) \<and>
      shapeOK (snd (unlock sv i)) \<and>
      (\<forall>sv'. fireTimer sv h now = Some sv' \<longrightarrow> shapeOK sv')) \<and>
   (\<exists>sv'. run initial evs = Some sv' \<and> shapeOK sv')"
proof (intro conjI impI allI)
  show "shapeOK initial" by (rule shapeOK_initial)
  from timersOK_run [OF timersOK_initial, of evs]
  obtain sv' where r: "run initial evs = Some sv'" by blast
  from shapeOK_run [OF shapeOK_initial r] r
  show "\<exists>sv'. run initial evs = Some sv' \<and> shapeOK sv'" by blast
qed (simp_all add: shapeOK_lock shapeOK_confirm shapeOK_unlock shapeOK_fire)

theorem state_shape_invariant_witness:
  "shapeOK (snd (lock initial 1 ''A'' 0)) \<and>
   seats (snd (lock initial 1 ''A'' 0)) 1 =
     Some \<lparr>status = Locked, lockedBy = Some ''A'', lockExpiresAt = Some 60000, timeoutId = Some 0\<rparr> \<and>
   shapeOK (snd (confirm (snd (lock initial 1 ''A'' 0)) 1 ''A'' 10)) \<and>
   seats (snd (confirm (snd (lock initial 1 ''A'' 0)) 1 ''A'' 10)) 1 =
     Some \<lparr>status = Booked, lockedBy = None, lockExpiresAt = None, timeoutId = None\<rparr>"
proof -
  from state_shape_invariant [of initial 1 "''A''" 0]
  have a: "shapeOK (snd (lock initial 1 ''A'' 0))" by blast
  with state_shape_invariant [of "snd (lock initial 1 ''A'' 0)" 1 "''A''" 10]
  have b: "shapeOK (snd (confirm (snd (lock initial 1 ''A'' 0)) 1 ''A'' 10))" by blast
  have held: "holdsLock (snd (lock initial 1 ''A'' 0)) 1 ''A'' (0 + LOCK_TTL)"
    by (rule holdsLock_lock_initial_1)
  have c: "seats (snd (confirm (snd (lock initial 1 ''A'' 0)) 1 ''A'' 10)) 1 = Some bookedSeat"
    by (simp add: confirm_held [OF held] LOCK_TTL_def)
  from a b c show ?thesis
    by (simp add: seats_lock_initial_1 lockedSeat_def bookedSeat_def LOCK_TTL_def)
qed

text \<open>
  Claim C9 (release is idempotent). \<open>unlock\<close> on an available seat is answered 200 and
  returns the state it was given. On a locked seat it is answered 200, cancels the
  timeout whose handle the seat's record holds and stores the available record. So on
  a seat that is available or locked, a second \<open>unlock\<close> right after the first is
  answered 200 as well and ends in the state the first one produced, with the seat
  available.
\<close>

theorem release_idempotent:
  assumes "seats sv s = Some seat"
  shows "(status seat = Available \<longrightarrow> unlock sv s = (alreadyAvailable s, sv)) \<and>
         (status seat = Locked \<longrightarrow>
            unlock sv s = (lockCleared s, reclaimed sv s) \<and>
            seats (reclaimed sv s) = (seats sv)(s \<mapsto> availableSeat) \<and>
            timers (reclaimed sv s) =
              (case timeoutId seat of None \<Rightarrow> timers sv | Some h \<Rightarrow> (timers sv)(h := None))) \<and>
         (status seat \<noteq> Booked \<longrightarrow>
            code (fst (unlock sv s)) = 200 \<and>
            code (fst (unlock (snd (unlock sv s)) s)) = 200 \<and>
            snd (unlock (snd (unlock sv s)) s) = snd (unlock sv s) \<and>
            statusOf (snd (unlock sv s)) s = Some Available)"
proof (intro conjI impI)
  assume "status seat = Available"
  with assms show "unlock sv s = (alreadyAvailable s, sv)" by (simp add: unlock_available)
next
  assume l: "status seat = Locked"
  with assms show "unlock sv s = (lockCleared s, reclaimed sv s)" by (simp add: unlock_locked)
  from assms show "seats (reclaimed sv s) = (seats sv)(s \<mapsto> availableSeat)"
    by (rule seats_reclaimed)
  from assms show "timers (reclaimed sv s) =
      (case timeoutId seat of None \<Rightarrow> timers sv | Some h \<Rightarrow> (timers sv)(h := None))"
    by (simp add: timers_reclaimed timers_clearSeatTimer)
next
  assume nb: "status seat \<noteq> Booked"
  have again: "unlock (reclaimed sv s) s = (alreadyAvailable s, reclaimed sv s)"
    by (rule unlock_available [OF reclaimed_available status_availableSeat])
  show "code (fst (unlock sv s)) = 200"
    using assms nb by (cases "status seat") (simp_all add: unlock_available unlock_locked response_codes)
  show "code (fst (unlock (snd (unlock sv s)) s)) = 200"
    using assms nb again
    by (cases "status seat") (simp_all add: unlock_available unlock_locked response_codes)
  show "snd (unlock (snd (unlock sv s)) s) = snd (unlock sv s)"
    using assms nb again
    by (cases "status seat") (simp_all add: unlock_available unlock_locked)
  show "statusOf (snd (unlock sv s)) s = Some Available"
    using assms nb
    by (cases "status seat")
       (simp_all add: unlock_available unlock_locked statusOf_def reclaimed_available
          status_availableSeat)
qed

theorem release_idempotent_witness:
  "unlock initial 1 = (alreadyAvailable 1, initial) \<and>
   unlock (snd (lock initial 1 ''A'' 0)) 1 =
     (lockCleared 1, \<lparr>seats = initialSeats(1 \<mapsto> availableSeat), timers = Map.empty, nextTimer = Suc 0\<rparr>) \<and>
   code (fst (unlock (snd (unlock (snd (lock initial 1 ''A'' 0)) 1)) 1)) = 200 \<and>
   snd (unlock (snd (unlock (snd (lock initial 1 ''A'' 0)) 1)) 1) =
     snd (unlock (snd (lock initial 1 ''A'' 0)) 1)"
proof -
  let ?x = "(lockedSeat ''A'' (0 + LOCK_TTL))\<lparr>timeoutId := Some 0\<rparr>"
  have s1: "seats (snd (lock initial 1 ''A'' 0)) 1 = Some ?x"
    by (rule seats_lock_initial_1)
  have l: "status ?x = Locked" and nb: "status ?x \<noteq> Booked"
    by (simp_all add: lockedSeat_def)
  from release_idempotent [OF seats_initial_1] status_availableSeat
  have a: "unlock initial 1 = (alreadyAvailable 1, initial)" by blast
  from release_idempotent [OF s1] l
  have b: "unlock (snd (lock initial 1 ''A'' 0)) 1 =
             (lockCleared 1, reclaimed (snd (lock initial 1 ''A'' 0)) 1)"
    by blast
  have b': "reclaimed (snd (lock initial 1 ''A'' 0)) 1 =
     \<lparr>seats = initialSeats(1 \<mapsto> availableSeat), timers = Map.empty, nextTimer = Suc 0\<rparr>"
    by (simp add: reclaimed_def clearSeatTimer_def lock_initial_1)
  from release_idempotent [OF s1] nb
  have c: "code (fst (unlock (snd (unlock (snd (lock initial 1 ''A'' 0)) 1)) 1)) = 200 \<and>
           snd (unlock (snd (unlock (snd (lock initial 1 ''A'' 0)) 1)) 1) =
             snd (unlock (snd (lock initial 1 ''A'' 0)) 1)"
    by blast
  from a b b' c show ?thesis by simp
qed

text \<open>
  Claim C10 (per-seat frame). A request on seat \<open>s\<close>, whatever its outcome, and the
  firing of a timeout armed for seat \<open>s\<close>, leave the record of every other seat \<open>j\<close>
  as it was, and leave the set of seat ids as it was.
\<close>

theorem per_seat_frame:
  assumes "j \<noteq> s"
  shows "seats (snd (lock sv s u now)) j = seats sv j \<and>
         seats (snd (confirm sv s u now)) j = seats sv j \<and>
         seats (snd (unlock sv s)) j = seats sv j \<and>
         (\<forall>tm sv'. timers sv h = Some tm \<and> timerSeat tm = s \<and> fireTimer sv h now = Some sv' \<longrightarrow>
            seats sv' j = seats sv j \<and> dom (seats sv') = dom (seats sv)) \<and>
         (\<forall>sv'. expiryCallback sv s now = Some sv' \<longrightarrow>
            seats sv' j = seats sv j \<and> dom (seats sv') = dom (seats sv)) \<and>
         dom (seats (snd (lock sv s u now))) = dom (seats sv) \<and>
         dom (seats (snd (confirm sv s u now))) = dom (seats sv) \<and>
         dom (seats (snd (unlock sv s))) = dom (seats sv)"
proof (intro conjI allI impI)
  fix tm sv'
  assume f: "timers sv h = Some tm \<and> timerSeat tm = s \<and> fireTimer sv h now = Some sv'"
  with assms show "seats sv' j = seats sv j"
    by (auto dest: seats_fire_other)
  from f have "fireTimer sv h now = Some sv'" by simp
  then show "dom (seats sv') = dom (seats sv)"
    by (rule dom_seats_fire)
next
  fix sv'
  assume c: "expiryCallback sv s now = Some sv'"
  with assms show "seats sv' j = seats sv j"
    by (auto simp add: expiryCallback_def split: option.splits if_splits)
  from c show "dom (seats sv') = dom (seats sv)"
    by (auto simp add: expiryCallback_def split: option.splits if_splits)
qed (simp_all add: assms seats_lock_other seats_confirm_other seats_unlock_other
      dom_seats_lock dom_seats_confirm dom_seats_unlock)

theorem per_seat_frame_witness:
  "seats (snd (lock initial 1 ''A'' 0)) 2 = Some availableSeat \<and>
   seats (snd (confirm (snd (lock initial 1 ''A'' 0)) 1 ''A'' 5)) 2 = Some availableSeat \<and>
   fireTimer (snd (lock initial 1 ''A'' 0)) 0 60050 =
     Some \<lparr>seats = initialSeats(1 \<mapsto> availableSeat), timers = Map.empty, nextTimer = Suc 0\<rparr> \<and>
   dom (seats (snd (lock initial 1 ''A'' 0))) = dom (seats initial)"
proof -
  have ne: "(2::int) \<noteq> 1" by simp
  have s2: "seats initial 2 = Some availableSeat"
    by (simp add: initial_def initialSeats_lookup TOTAL_SEATS_def)
  from per_seat_frame [OF ne, of initial "''A''" 0] s2
  have a: "seats (snd (lock initial 1 ''A'' 0)) 2 = Some availableSeat \<and>
           dom (seats (snd (lock initial 1 ''A'' 0))) = dom (seats initial)"
    by simp
  from per_seat_frame [OF ne, of "snd (lock initial 1 ''A'' 0)" "''A''" 5] a
  have b: "seats (snd (confirm (snd (lock initial 1 ''A'' 0)) 1 ''A'' 5)) 2 = Some availableSeat"
    by simp
  have c: "fireTimer (snd (lock initial 1 ''A'' 0)) 0 60050 =
     Some \<lparr>seats = initialSeats(1 \<mapsto> availableSeat), timers = Map.empty, nextTimer = Suc 0\<rparr>"
    by (simp add: lock_initial_1 fireTimer_def expiryCallback_def expiredAt_def lockedSeat_def
        LOCK_TTL_def)
  from a b c show ?thesis by simp
qed

end
